theory Spec2Isabelle
  imports Main "HOL-Library.Char_ord" "HOL-Library.List_Lexorder" "HOL-Library.Multiset"
    "HOL-Library.Sublist"
begin

section \<open>Python strings\<close>

text \<open>
  A Python \<open>str\<close> is a sequence of code points. It is modelled as a \<^typ>\<open>string\<close>, each
  \<^typ>\<open>char\<close> standing for one code point below 256; the character classes below are
  Python's own on that range.
\<close>

definition py_isspace :: "char \<Rightarrow> bool" where
  \<comment> \<open>\<open>str.isspace\<close> on one character, which is also the class \<open>\s\<close> of \<open>re\<close>\<close>
  "py_isspace c =
     (let n = (of_char c :: nat)
      in (9 \<le> n \<and> n \<le> 13) \<or> (28 \<le> n \<and> n \<le> 32) \<or> n = 133 \<or> n = 160)"

definition py_isword :: "char \<Rightarrow> bool" where
  \<comment> \<open>the class \<open>\w\<close> of \<open>re\<close> on a \<open>str\<close> pattern: alphanumeric or underscore\<close>
  "py_isword c =
     (let n = (of_char c :: nat)
      in (48 \<le> n \<and> n \<le> 57) \<or> (65 \<le> n \<and> n \<le> 90) \<or> n = 95 \<or> (97 \<le> n \<and> n \<le> 122)
         \<or> n = 170 \<or> n = 178 \<or> n = 179 \<or> n = 181 \<or> n = 185 \<or> n = 186
         \<or> (188 \<le> n \<and> n \<le> 190) \<or> (192 \<le> n \<and> n \<le> 214) \<or> (216 \<le> n \<and> n \<le> 246)
         \<or> 248 \<le> n)"

definition py_strip :: "string \<Rightarrow> string" where
  \<comment> \<open>\<open>s.strip()\<close>\<close>
  "py_strip s = rev (dropWhile py_isspace (rev (dropWhile py_isspace s)))"

definition py_startswith :: "string \<Rightarrow> string \<Rightarrow> bool" where
  \<comment> \<open>\<open>s.startswith(p)\<close>\<close>
  "py_startswith s p = (take (length p) s = p)"

definition py_endswith :: "string \<Rightarrow> string \<Rightarrow> bool" where
  \<comment> \<open>\<open>s.endswith(p)\<close>\<close>
  "py_endswith s p = (length p \<le> length s \<and> drop (length s - length p) s = p)"

fun py_find :: "string \<Rightarrow> string \<Rightarrow> (string \<times> string) option" where
  \<comment> \<open>the text before and after the first occurrence of \<open>sep\<close> in \<open>s\<close>\<close>
  "py_find sep [] = (if sep = [] then Some ([], []) else None)"
| "py_find sep (c # cs) =
     (if py_startswith (c # cs) sep then Some ([], drop (length sep) (c # cs))
      else (case py_find sep cs of
              None \<Rightarrow> None
            | Some (pre, post) \<Rightarrow> Some (c # pre, post)))"

definition py_in :: "string \<Rightarrow> string \<Rightarrow> bool" where
  \<comment> \<open>\<open>sub in s\<close>\<close>
  "py_in sub s = (py_find sub s \<noteq> None)"

fun py_split :: "string \<Rightarrow> nat \<Rightarrow> string \<Rightarrow> string list" where
  \<comment> \<open>\<open>s.split(sep, maxsplit)\<close> for a non-empty \<open>sep\<close>\<close>
  "py_split sep 0 s = [s]"
| "py_split sep (Suc n) s =
     (case py_find sep s of
        None \<Rightarrow> [s]
      | Some (pre, post) \<Rightarrow> pre # py_split sep n post)"

function py_count :: "string \<Rightarrow> string \<Rightarrow> nat" where
  \<comment> \<open>\<open>s.count(sep)\<close>: the occurrences of \<open>sep\<close>, none overlapping another\<close>
  "py_count sep s =
     (if sep = [] then length s + 1
      else (case py_find sep s of
              None \<Rightarrow> 0
            | Some (pre, post) \<Rightarrow> if length post < length s then 1 + py_count sep post else 1))"
  by pat_completeness auto
termination
  by (relation "measure (\<lambda>(sep, s). length s)") auto

declare py_count.simps [simp del]

fun py_lines :: "string \<Rightarrow> string list" where
  \<comment> \<open>\<open>s.split('\n')\<close>\<close>
  "py_lines [] = [[]]"
| "py_lines (c # cs) =
     (if c = CHR 0x0A then [] # py_lines cs
      else (case py_lines cs of
              [] \<Rightarrow> [[c]]
            | l # ls \<Rightarrow> (c # l) # ls))"

fun py_join :: "string \<Rightarrow> string list \<Rightarrow> string" where
  \<comment> \<open>\<open>sep.join(xs)\<close> on a list of \<open>str\<close>\<close>
  "py_join sep [] = []"
| "py_join sep [x] = x"
| "py_join sep (x # y # ys) = x @ sep @ py_join sep (y # ys)"

section \<open>Regular expressions\<close>

text \<open>
  The patterns of the program are sequences of single characters, greedy repetitions of a
  character class (captured or not) and the anchor \<open>$\<close>. A repetition takes as many
  characters as it can and gives them back one at a time while the rest of the pattern
  fails, as the backtracking matcher of \<open>re\<close> does.
\<close>

datatype piece =
    One "char \<Rightarrow> bool"
  | Many bool "char \<Rightarrow> bool" nat "nat option"
  | Eol

fun rmatch :: "piece list \<Rightarrow> string \<Rightarrow> (string list \<times> string) option"
  and rmany :: "bool \<Rightarrow> nat \<Rightarrow> piece list \<Rightarrow> string \<Rightarrow> nat \<Rightarrow> (string list \<times> string) option"
where
  "rmatch [] s = Some ([], s)"
| "rmatch (One P # ps) s =
     (case s of [] \<Rightarrow> None | c # cs \<Rightarrow> if P c then rmatch ps cs else None)"
| "rmatch (Eol # ps) s =
     (if s = [] \<or> s = [CHR 0x0A] then rmatch ps s else None)"
| "rmatch (Many cap P lo hi # ps) s =
     (let n = length (takeWhile P s);
          k = (case hi of None \<Rightarrow> n | Some h \<Rightarrow> min h n)
      in if k < lo then None else rmany cap lo ps s k)"
| "rmany cap lo ps s k =
     (case rmatch ps (drop k s) of
        Some (gs, r) \<Rightarrow> Some (if cap then take k s # gs else gs, r)
      | None \<Rightarrow> if k \<le> lo then None else rmany cap lo ps s (k - 1))"

declare rmany.simps [simp del]

function re_sub :: "piece list \<Rightarrow> (string list \<Rightarrow> string) \<Rightarrow> string \<Rightarrow> string" where
  \<comment> \<open>\<open>re.sub(pattern, repl, s)\<close>: every leftmost non-overlapping match is replaced, \<open>repl\<close>
      being given the captured groups. The second branch, an empty match, is not reached
      by any pattern of the program.\<close>
  "re_sub p repl s =
     (case rmatch p s of
        Some (gs, r) \<Rightarrow>
          if length r < length s then repl gs @ re_sub p repl r
          else repl gs @ (case s of [] \<Rightarrow> [] | c # cs \<Rightarrow> c # re_sub p repl cs)
      | None \<Rightarrow> (case s of [] \<Rightarrow> [] | c # cs \<Rightarrow> c # re_sub p repl cs))"
  by pat_completeness auto
termination
  by (relation "measure (\<lambda>(p, repl, s). length s)") auto

declare re_sub.simps [simp del]

function re_split_from :: "piece list \<Rightarrow> string \<Rightarrow> string \<Rightarrow> string list" where
  \<comment> \<open>the scan of \<open>re.split\<close>: \<open>acc\<close> is the text since the last match, in reverse\<close>
  "re_split_from p acc s =
     (case rmatch p s of
        Some (gs, r) \<Rightarrow>
          if length r < length s then rev acc # gs @ re_split_from p [] r
          else (case s of [] \<Rightarrow> [rev acc] | c # cs \<Rightarrow> re_split_from p (c # acc) cs)
      | None \<Rightarrow> (case s of [] \<Rightarrow> [rev acc] | c # cs \<Rightarrow> re_split_from p (c # acc) cs))"
  by pat_completeness auto
termination
  by (relation "measure (\<lambda>(p, acc, s). length s)") auto

declare re_split_from.simps [simp del]

definition re_split :: "piece list \<Rightarrow> string \<Rightarrow> string list" where
  \<comment> \<open>\<open>re.split(pattern, s)\<close>: the text between the matches, each match contributing its
      captured groups\<close>
  "re_split p s = re_split_from p [] s"

definition lit :: "char \<Rightarrow> piece" where
  "lit c = One (\<lambda>x. x = c)"

definition link_pattern :: "piece list" where
  \<comment> \<open>\<open>\[([^\]]+)\]\(([^)]+)\)\<close>\<close>
  "link_pattern =
     [lit CHR ''['', Many True (\<lambda>c. c \<noteq> CHR '']'') 1 None, lit CHR '']'',
      lit CHR ''('', Many True (\<lambda>c. c \<noteq> CHR '')'') 1 None, lit CHR '')'']"

definition header_pattern :: "piece list" where
  \<comment> \<open>\<open>^(#{1,3})\s*(.+)$\<close>, used with \<open>re.match\<close>, which anchors at the start\<close>
  "header_pattern =
     [Many True (\<lambda>c. c = CHR ''#'') 1 (Some 3), Many False py_isspace 0 None,
      Many True (\<lambda>c. c \<noteq> CHR 0x0A) 1 None, Eol]"

definition bold_pattern :: "piece list" where
  \<comment> \<open>\<open>\*\*([^*]+)\*\*\<close>\<close>
  "bold_pattern =
     [lit CHR ''*'', lit CHR ''*'', Many True (\<lambda>c. c \<noteq> CHR ''*'') 1 None,
      lit CHR ''*'', lit CHR ''*'']"

definition italic_pattern :: "piece list" where
  \<comment> \<open>\<open>\*([^*]+)\*\<close>\<close>
  "italic_pattern = [lit CHR ''*'', Many True (\<lambda>c. c \<noteq> CHR ''*'') 1 None, lit CHR ''*'']"

definition code_pattern :: "piece list" where
  \<comment> \<open>a backquote, \<open>([^`]+)\<close>, a backquote\<close>
  "code_pattern = [lit CHR 0x60, Many True (\<lambda>c. c \<noteq> CHR 0x60) 1 None, lit CHR 0x60]"

definition emoji_pattern :: "piece list" where
  \<comment> \<open>\<open>:[\w]+:\<close>\<close>
  "emoji_pattern = [lit CHR '':'', Many False py_isword 1 None, lit CHR '':'']"

definition group1 :: "string list \<Rightarrow> string" where
  \<comment> \<open>the replacement template \<open>\1\<close>\<close>
  "group1 gs = (case gs of [] \<Rightarrow> [] | g # _ \<Rightarrow> g)"

section \<open>Inline links\<close>

function links_loop ::
  "string list \<Rightarrow> nat \<Rightarrow> string list \<Rightarrow> string list \<Rightarrow> string list \<times> string list" where
  \<comment> \<open>the \<open>while i < len(parts)\<close> loop of \<open>convert_links\<close>, returning \<open>result_lines\<close> and
      \<open>collected_links\<close>\<close>
  "links_loop parts i result_lines collected_links =
     (if i < length parts then
        (if i + 2 < length parts then
           links_loop parts (i + 3) (result_lines @ [parts ! i])
             (collected_links @ [''=> '' @ parts ! (i + 2) @ '' '' @ parts ! (i + 1)])
         else links_loop parts (i + 1) (result_lines @ [parts ! i]) collected_links)
      else (result_lines, collected_links))"
  by pat_completeness auto
termination
  by (relation "measure (\<lambda>(parts, i, rl, cl). length parts - i)") auto

declare links_loop.simps [simp del]

definition convert_links :: "string \<Rightarrow> string" where
  "convert_links text =
     (let parts = re_split link_pattern text;
          (result_lines, collected_links) = links_loop parts 0 [] [];
          final_text = concat result_lines
      in if collected_links \<noteq> [] then final_text @ [CHR 0x0A] @ py_join [CHR 0x0A] collected_links
         else final_text)"

definition strip_inline :: "string \<Rightarrow> string" where
  \<comment> \<open>the three substitutions shared by list items and regular text: bold, italic, code\<close>
  "strip_inline text =
     re_sub code_pattern group1 (re_sub italic_pattern group1 (re_sub bold_pattern group1 text))"

section \<open>Metadata values\<close>

text \<open>
  The values \<open>yaml.safe_load\<close> builds: null, booleans, integers, strings, dates
  (\<open>datetime.date\<close>), timestamps (\<open>datetime.datetime\<close>), sequences and mappings. Floats
  are left out. A mapping is kept as an association list, looked up with \<^const>\<open>map_of\<close>.
\<close>

record clock =
  hour :: nat
  minute :: nat
  second :: nat
  microsecond :: nat
  utcoffset :: "int option"  \<comment> \<open>minutes east of UTC, when the timestamp names a zone\<close>

datatype yaml_value =
    YNull
  | YBool bool
  | YInt int
  | YStr string
  | YDate nat nat nat
  | YDateTime nat nat nat clock
  | YSeq "yaml_value list"
  | YMap "(yaml_value \<times> yaml_value) list"

text \<open>
  The exceptions: \<open>YAMLError\<close> and \<open>ValueError\<close> are raised by the loader (the second by
  the constructor of a date that is not in the calendar), \<open>AttributeError\<close> and
  \<open>TypeError\<close> by the program. \<open>Unmodelled\<close> is no exception of Python: the loader
  instance below answers it on a document it does not cover.
\<close>

datatype py_error = YAMLError | ValueError | AttributeError | TypeError | Unmodelled

text \<open>
  Two library functions are parameters of the model: \<open>yaml.safe_load\<close>, which either
  returns a value or raises, and the text \<open>str()\<close> gives for a sequence or a mapping.
\<close>

record pylib =
  safe_load :: "string \<Rightarrow> py_error + yaml_value"
  container_str :: "yaml_value \<Rightarrow> string"

fun py_truthy :: "yaml_value \<Rightarrow> bool" where
  "py_truthy YNull = False"
| "py_truthy (YBool b) = b"
| "py_truthy (YInt i) = (i \<noteq> 0)"
| "py_truthy (YStr s) = (s \<noteq> [])"
| "py_truthy (YDate y m d) = True"
| "py_truthy (YDateTime y m d t) = True"
| "py_truthy (YSeq xs) = (xs \<noteq> [])"
| "py_truthy (YMap kvs) = (kvs \<noteq> [])"

function dec :: "nat \<Rightarrow> string" where
  \<comment> \<open>decimal digits of a natural number\<close>
  "dec n = (if n < 10 then [char_of (48 + n)] else dec (n div 10) @ [char_of (48 + n mod 10)])"
  by pat_completeness auto
termination
  by (relation "measure (\<lambda>n. n)") auto

declare dec.simps [simp del]

definition pad0 :: "nat \<Rightarrow> nat \<Rightarrow> string" where
  \<comment> \<open>the format \<open>%0wd\<close>\<close>
  "pad0 w n = replicate (w - length (dec n)) CHR ''0'' @ dec n"

definition ymd :: "nat \<Rightarrow> nat \<Rightarrow> nat \<Rightarrow> string" where
  \<comment> \<open>\<open>YYYY-MM-DD\<close> as \<open>date.isoformat()\<close> prints it, the year padded to four digits\<close>
  "ymd y m d = pad0 4 y @ ''-'' @ pad0 2 m @ ''-'' @ pad0 2 d"

definition strftime_ymd :: "nat \<Rightarrow> nat \<Rightarrow> nat \<Rightarrow> string" where
  \<comment> \<open>\<open>strftime('%Y-%m-%d')\<close>: \<open>%Y\<close> is the year as the C library prints it, without
      padding, so a year below 1000 has fewer than four digits\<close>
  "strftime_ymd y m d = dec y @ ''-'' @ pad0 2 m @ ''-'' @ pad0 2 d"

definition clock_str :: "clock \<Rightarrow> string" where
  \<comment> \<open>the time part of \<open>datetime.isoformat\<close>\<close>
  "clock_str t =
     pad0 2 (hour t) @ '':'' @ pad0 2 (minute t) @ '':'' @ pad0 2 (second t)
     @ (if microsecond t \<noteq> 0 then ''.'' @ pad0 6 (microsecond t) else [])
     @ (case utcoffset t of
          None \<Rightarrow> []
        | Some off \<Rightarrow>
            (if off < 0 then ''-'' else ''+'')
            @ pad0 2 (nat \<bar>off\<bar> div 60) @ '':'' @ pad0 2 (nat \<bar>off\<bar> mod 60))"

fun py_str :: "pylib \<Rightarrow> yaml_value \<Rightarrow> string" where
  \<comment> \<open>\<open>str(v)\<close>, which is also how an f-string renders \<open>{v}\<close>\<close>
  "py_str L YNull = ''None''"
| "py_str L (YBool b) = (if b then ''True'' else ''False'')"
| "py_str L (YInt i) = (if i < 0 then ''-'' @ dec (nat (- i)) else dec (nat i))"
| "py_str L (YStr s) = s"
| "py_str L (YDate y m d) = ymd y m d"
| "py_str L (YDateTime y m d t) = ymd y m d @ '' '' @ clock_str t"
| "py_str L (YSeq xs) = container_str L (YSeq xs)"
| "py_str L (YMap kvs) = container_str L (YMap kvs)"

fun strftime_date :: "yaml_value \<Rightarrow> yaml_value" where
  \<comment> \<open>\<open>if isinstance(date, datetime): date = date.strftime('%Y-%m-%d')\<close>; a
      \<open>datetime.date\<close> is not a \<open>datetime.datetime\<close>\<close>
  "strftime_date (YDateTime y m d t) = YStr (strftime_ymd y m d)"
| "strftime_date v = v"

fun is_mapping :: "yaml_value \<Rightarrow> bool" where
  \<comment> \<open>whether the value is a \<open>dict\<close>\<close>
  "is_mapping (YMap kvs) = True"
| "is_mapping v = False"

fun str_items :: "yaml_value list \<Rightarrow> py_error + string list" where
  \<comment> \<open>the check of \<open>str.join\<close> that every item is a \<open>str\<close>\<close>
  "str_items [] = Inr []"
| "str_items (YStr s # vs) =
     (case str_items vs of Inl e \<Rightarrow> Inl e | Inr ss \<Rightarrow> Inr (s # ss))"
| "str_items (v # vs) = Inl TypeError"

definition join_values :: "string \<Rightarrow> yaml_value list \<Rightarrow> py_error + string" where
  \<comment> \<open>\<open>sep.join(xs)\<close> on a list of any values\<close>
  "join_values sep vs = (case str_items vs of Inl e \<Rightarrow> Inl e | Inr ss \<Rightarrow> Inr (py_join sep ss))"

section \<open>Frontmatter\<close>

definition parse_frontmatter :: "pylib \<Rightarrow> string \<Rightarrow> py_error + yaml_value \<times> string" where
  \<comment> \<open>\<open>except yaml.YAMLError: pass\<close> catches that exception alone; any other one the
      loader raises leaves the function\<close>
  "parse_frontmatter L content =
     (if py_startswith content ''---'' then
        (let parts = py_split ''---'' 2 content
         in if length parts \<ge> 3 then
              (case safe_load L (parts ! 1) of
                 Inr frontmatter \<Rightarrow>
                   Inr (if py_truthy frontmatter then frontmatter else YMap [],
                        py_strip (parts ! 2))
               | Inl e \<Rightarrow> if e = YAMLError then Inr (YMap [], content) else Inl e)
            else Inr (YMap [], content))
      else Inr (YMap [], content))"

section \<open>Body\<close>

definition group2 :: "string list \<Rightarrow> string" where
  \<comment> \<open>\<open>match.group(2)\<close>\<close>
  "group2 gs = (case gs of _ # g # _ \<Rightarrow> g | _ \<Rightarrow> [])"

definition header_match :: "string \<Rightarrow> string list option" where
  \<comment> \<open>\<open>line.startswith('#')\<close> and then \<open>re.match\<close> of the header pattern: the groups\<close>
  "header_match line =
     (if py_startswith line ''#'' then map_option fst (rmatch header_pattern line) else None)"

definition rewrite_line :: "string \<Rightarrow> string" where
  \<comment> \<open>one line outside a code block that is neither a fence nor a shortcode line\<close>
  "rewrite_line line =
     (case header_match line of
        Some gs \<Rightarrow> replicate (length (group1 gs)) CHR ''#'' @ '' '' @ group2 gs
      | None \<Rightarrow>
          if py_startswith (py_strip line) ''**'' \<and> py_endswith (py_strip line) ''**'' then
            ''## '' @ take (length (py_strip line) - 4) (drop 2 (py_strip line))
          else if py_startswith (py_strip line) ''- '' \<or> py_startswith (py_strip line) ''* '' then
            ''* '' @ strip_inline (drop 2 (py_strip line))
          else if py_startswith (py_strip line) ''>'' then
            ''> '' @ py_strip (drop 1 (py_strip line))
          else convert_links (re_sub emoji_pattern (\<lambda>gs. []) (strip_inline line)))"

definition fence :: string where
  "fence = [CHR 0x60, CHR 0x60, CHR 0x60]"

definition process_line :: "bool \<Rightarrow> string \<Rightarrow> bool \<times> string list" where
  \<comment> \<open>one turn of the loop over the body: the new \<open>in_code_block\<close> and the lines appended\<close>
  "process_line in_code_block line =
     (if py_startswith (py_strip line) fence then (\<not> in_code_block, [fence])
      else if in_code_block then (True, [line])
      else if py_in ''{{<'' line \<or> py_in ''{{%'' line then (False, [])
      else (False, [rewrite_line line]))"

fun process_body :: "bool \<Rightarrow> string list \<Rightarrow> string list" where
  \<comment> \<open>the loop over the lines of the body: everything it appends\<close>
  "process_body in_code_block [] = []"
| "process_body in_code_block (line # rest) =
     (case process_line in_code_block line of
        (in_code_block', out) \<Rightarrow> out @ process_body in_code_block' rest)"

definition title_block :: "pylib \<Rightarrow> (yaml_value \<times> yaml_value) list \<Rightarrow> yaml_value list" where
  "title_block L fm =
     (case map_of fm (YStr ''title'') of
        Some t \<Rightarrow> if py_truthy t then [YStr (''# '' @ py_str L t), YStr []] else []
      | None \<Rightarrow> [])"

definition date_block :: "pylib \<Rightarrow> (yaml_value \<times> yaml_value) list \<Rightarrow> yaml_value list" where
  "date_block L fm =
     (case map_of fm (YStr ''date'') of
        Some d \<Rightarrow>
          if py_truthy d then [YStr (''Data: '' @ py_str L (strftime_date d)), YStr []] else []
      | None \<Rightarrow> [])"

definition summary_block :: "(yaml_value \<times> yaml_value) list \<Rightarrow> yaml_value list" where
  "summary_block fm =
     (case map_of fm (YStr ''summary'') of
        Some s \<Rightarrow> if py_truthy s then [s, YStr []] else []
      | None \<Rightarrow> [])"

definition gemtext_lines :: "pylib \<Rightarrow> string \<Rightarrow> py_error + yaml_value list" where
  \<comment> \<open>the list \<open>lines\<close> when the loop over the body has ended; \<open>frontmatter.get\<close> raises
      on a value that is no mapping\<close>
  "gemtext_lines L content =
     (case parse_frontmatter L content of
        Inl e \<Rightarrow> Inl e
      | Inr (YMap fm, body) \<Rightarrow>
          Inr (title_block L fm @ date_block L fm @ summary_block fm
               @ map YStr (process_body False (py_lines body)))
      | Inr (_, body) \<Rightarrow> Inl AttributeError)"

definition convert_markdown_to_gemtext :: "pylib \<Rightarrow> string \<Rightarrow> py_error + string" where
  "convert_markdown_to_gemtext L content =
     (case gemtext_lines L content of
        Inl e \<Rightarrow> Inl e
      | Inr ls \<Rightarrow> join_values [CHR 0x0A] ls)"

section \<open>Index page\<close>

record post =
  title :: yaml_value
  date :: string
  path :: string

text \<open>
  The file system is an input: \<open>dirs\<close> lists, in the order of \<open>iterdir\<close>, the name of
  every directory under \<open>blog\<close> that holds an \<open>index.md\<close>, with the text of that file.
\<close>

fun collect_posts :: "pylib \<Rightarrow> (string \<times> string) list \<Rightarrow> py_error + post list" where
  "collect_posts L [] = Inr []"
| "collect_posts L ((name, content) # rest) =
     (case parse_frontmatter L content of
        Inl e \<Rightarrow> Inl e
      | Inr (YMap fm, body) \<Rightarrow>
          (let p = \<lparr> title = (case map_of fm (YStr ''title'') of Some t \<Rightarrow> t | None \<Rightarrow> YStr name),
                     date = py_str L (strftime_date
                              (case map_of fm (YStr ''date'') of Some d \<Rightarrow> d | None \<Rightarrow> YStr [])),
                     path = ''blog/'' @ name @ ''.gmi'' \<rparr>
           in case collect_posts L rest of Inl e \<Rightarrow> Inl e | Inr ps \<Rightarrow> Inr (p # ps))
      | Inr (_, body) \<Rightarrow> Inl AttributeError)"

definition sort_posts :: "post list \<Rightarrow> post list" where
  \<comment> \<open>\<open>posts.sort(key=lambda x: x['date'], reverse=True)\<close>: the list is reversed, sorted by
      a stable sort and reversed again\<close>
  "sort_posts posts = rev (sort_key date (rev posts))"

definition post_line :: "pylib \<Rightarrow> post \<Rightarrow> string" where
  "post_line L p = ''=> '' @ path p @ '' ['' @ date p @ ''] '' @ py_str L (title p)"

definition index_header :: "string list" where
  "index_header = [''# Blog'', [], ''Witaj w wersji Gemini mojego bloga!'', [], ''## Posty'', []]"

definition create_gemini_index :: "pylib \<Rightarrow> (string \<times> string) list \<Rightarrow> py_error + string" where
  \<comment> \<open>the text written to \<open>index.gmi\<close>\<close>
  "create_gemini_index L dirs =
     (case collect_posts L dirs of
        Inl e \<Rightarrow> Inl e
      | Inr posts \<Rightarrow>
          Inr (py_join [CHR 0x0A] (index_header @ map (post_line L) (sort_posts posts))))"

section \<open>A loader for flat documents\<close>

text \<open>
  An instance of the library parameters, for evaluating the program on concrete files. It
  covers the documents made of lines \<open>key: value\<close> and the documents of one scalar, a
  scalar being plain or a double-quoted run of letters, digits, spaces and \<open>_-./\<close>. A plain
  scalar is resolved as YAML 1.1 does: null, boolean, decimal integer, date
  \<open>YYYY-MM-DD\<close>, timestamp \<open>YYYY-MM-DDThh:mm:ss\<close>, string. A date or time that does not
  exist raises \<open>ValueError\<close>, as the constructors of \<open>datetime\<close> do; a value that opens a
  bracket in a document without a closing one raises \<open>YAMLError\<close>. Every other document
  is answered \<open>Unmodelled\<close>. The values hold no sequence and no nested mapping, so the
  text of a container is never asked for.
\<close>

definition is_digit :: "char \<Rightarrow> bool" where
  "is_digit c = (let n = (of_char c :: nat) in 48 \<le> n \<and> n \<le> 57)"

definition is_letter :: "char \<Rightarrow> bool" where
  "is_letter c = (let n = (of_char c :: nat) in (65 \<le> n \<and> n \<le> 90) \<or> (97 \<le> n \<and> n \<le> 122))"

definition digit_val :: "char \<Rightarrow> nat" where
  "digit_val c = of_char c - 48"

definition num_val :: "string \<Rightarrow> nat" where
  "num_val s = foldl (\<lambda>a c. 10 * a + digit_val c) 0 s"

definition is_plain_char :: "char \<Rightarrow> bool" where
  "is_plain_char c = (is_letter c \<or> is_digit c \<or> c \<in> set '' _-./'')"

definition days_in_month :: "nat \<Rightarrow> nat \<Rightarrow> nat" where
  "days_in_month y m =
     (if m = 2 then (if y mod 4 = 0 \<and> (y mod 100 \<noteq> 0 \<or> y mod 400 = 0) then 29 else 28)
      else if m = 4 \<or> m = 6 \<or> m = 9 \<or> m = 11 then 30
      else 31)"

definition valid_date :: "nat \<Rightarrow> nat \<Rightarrow> nat \<Rightarrow> bool" where
  \<comment> \<open>the dates \<open>datetime.date(y, m, d)\<close> accepts\<close>
  "valid_date y m d = (1 \<le> y \<and> 1 \<le> m \<and> m \<le> 12 \<and> 1 \<le> d \<and> d \<le> days_in_month y m)"

definition is_date_text :: "string \<Rightarrow> bool" where
  \<comment> \<open>ten characters \<open>dddd-dd-dd\<close>\<close>
  "is_date_text s =
     (length s = 10 \<and> list_all is_digit (take 4 s) \<and> s ! 4 = CHR ''-''
      \<and> list_all is_digit (take 2 (drop 5 s)) \<and> s ! 7 = CHR ''-''
      \<and> list_all is_digit (drop 8 s))"

definition is_time_text :: "string \<Rightarrow> bool" where
  \<comment> \<open>nine characters \<open>Tdd:dd:dd\<close>\<close>
  "is_time_text s =
     (length s = 9 \<and> s ! 0 = CHR ''T'' \<and> list_all is_digit (take 2 (drop 1 s))
      \<and> s ! 3 = CHR '':'' \<and> list_all is_digit (take 2 (drop 4 s)) \<and> s ! 6 = CHR '':''
      \<and> list_all is_digit (drop 7 s))"

definition resolve_scalar :: "bool \<Rightarrow> string \<Rightarrow> py_error + yaml_value" where
  \<comment> \<open>\<open>closed\<close>: the document holds a closing bracket somewhere\<close>
  "resolve_scalar closed s =
     (if s \<in> set [[], ''~'', ''null'', ''Null'', ''NULL''] then Inr YNull
      else if s \<in> set [''yes'', ''Yes'', ''YES'', ''true'', ''True'', ''TRUE'', ''on'', ''On'', ''ON'']
        then Inr (YBool True)
      else if s \<in> set [''no'', ''No'', ''NO'', ''false'', ''False'', ''FALSE'', ''off'', ''Off'', ''OFF'']
        then Inr (YBool False)
      else if s = ''0'' \<or> (list_all is_digit s \<and> hd s \<noteq> CHR ''0'') then Inr (YInt (int (num_val s)))
      else if is_date_text s then
        (let y = num_val (take 4 s); m = num_val (take 2 (drop 5 s)); d = num_val (drop 8 s)
         in if valid_date y m d then Inr (YDate y m d) else Inl ValueError)
      else if is_date_text (take 10 s) \<and> is_time_text (drop 10 s) then
        (let y = num_val (take 4 s); m = num_val (take 2 (drop 5 s));
             d = num_val (take 2 (drop 8 s)); h = num_val (take 2 (drop 11 s));
             mi = num_val (take 2 (drop 14 s)); sec = num_val (drop 17 s)
         in if valid_date y m d \<and> h < 24 \<and> mi < 60 \<and> sec < 60
            then Inr (YDateTime y m d \<lparr> hour = h, minute = mi, second = sec, microsecond = 0,
                                          utcoffset = None \<rparr>)
            else Inl ValueError)
      else if is_letter (hd s) \<and> list_all is_plain_char s \<and> last s \<noteq> CHR '' '' then Inr (YStr s)
      else if 2 \<le> length s \<and> hd s = CHR 0x22 \<and> last s = CHR 0x22
              \<and> list_all is_plain_char (butlast (tl s)) then Inr (YStr (butlast (tl s)))
      else if (hd s = CHR ''['' \<or> hd s = CHR ''{'') \<and> \<not> closed then Inl YAMLError
      else Inl Unmodelled)"

definition strip_spaces :: "string \<Rightarrow> string" where
  "strip_spaces s = rev (dropWhile (\<lambda>c. c = CHR '' '') (rev (dropWhile (\<lambda>c. c = CHR '' '') s)))"

definition flat_entry :: "bool \<Rightarrow> string \<Rightarrow> py_error + (yaml_value \<times> yaml_value)" where
  \<comment> \<open>one line \<open>key: value\<close> or \<open>key:\<close>, the key a string\<close>
  "flat_entry closed l =
     (case py_find '':'' l of
        None \<Rightarrow> Inl Unmodelled
      | Some (k, v) \<Rightarrow>
          if v \<noteq> [] \<and> hd v \<noteq> CHR '' '' then Inl Unmodelled
          else (case resolve_scalar closed k of
                  Inr (YStr k') \<Rightarrow>
                    (case resolve_scalar closed (strip_spaces v) of
                       Inr v' \<Rightarrow> Inr (YStr k', v')
                     | Inl e \<Rightarrow> Inl e)
                | _ \<Rightarrow> Inl Unmodelled))"

fun raised :: "py_error \<Rightarrow> (py_error + 'a) list \<Rightarrow> bool" where
  "raised e [] = False"
| "raised e (Inl e' # rs) = (e' = e \<or> raised e rs)"
| "raised e (Inr x # rs) = raised e rs"

fun as_dict :: "(py_error + 'k \<times> 'v) list \<Rightarrow> ('k \<times> 'v) list" where
  \<comment> \<open>the entries in the order read; of two entries with one key the later is kept\<close>
  "as_dict [] = []"
| "as_dict (Inr (k, v) # rs) = (if k \<in> fst ` set (as_dict rs) then as_dict rs else (k, v) # as_dict rs)"
| "as_dict (Inl e # rs) = as_dict rs"

definition flat_load :: "string \<Rightarrow> py_error + yaml_value" where
  \<comment> \<open>a line ends at a line feed or a carriage return; the document is read whole before
      any value is built, so an error of syntax comes before a \<open>ValueError\<close>\<close>
  "flat_load s =
     (let closed = (CHR '']'' \<in> set s \<or> CHR ''}'' \<in> set s);
          ls = filter (\<lambda>l. l \<noteq> [])
                 (map (\<lambda>l. rev (dropWhile (\<lambda>c. c = CHR '' '') (rev l)))
                    (py_lines (map (\<lambda>c. if c = CHR 0x0D then CHR 0x0A else c) s)))
      in if ls = [] then Inr YNull
         else if list_ex (\<lambda>l. hd l = CHR '' '' \<or> list_ex (\<lambda>c. py_isspace c \<and> c \<noteq> CHR '' '') l) ls
           then Inl Unmodelled
         else if length ls = 1 \<and> \<not> py_in '':'' (hd ls) then resolve_scalar closed (hd ls)
         else (let rs = map (flat_entry closed) ls
               in if raised Unmodelled rs then Inl Unmodelled
                  else if raised YAMLError rs then Inl YAMLError
                  else if raised ValueError rs then Inl ValueError
                  else Inr (YMap (as_dict rs))))"

definition flat_lib :: pylib where
  "flat_lib = \<lparr> safe_load = flat_load, container_str = (\<lambda>v. []) \<rparr>"

section \<open>Link relocation as the specification words it\<close>

text \<open>
  These definitions follow the specification and not the code: a link token is
  \<open>[label](url)\<close> with a non-empty label free of \<open>]\<close> and a non-empty url free of \<open>)\<close>;
  \<open>link_at\<close> reads such a token at the head of a text; a line is cut into segments, each
  the plain text before a token and the label and url of the token, and a last plain
  text. In a scanned line every token is the first one that starts after the token
  before it. \<open>parts_of\<close> lists, for a line cut this way, the plain texts, labels and urls
  in the order of the line.
\<close>

definition link_token :: "string \<Rightarrow> string \<Rightarrow> string" where
  "link_token label url = ''['' @ label @ '']('' @ url @ '')''"

definition is_link :: "string \<Rightarrow> string \<Rightarrow> bool" where
  "is_link label url = (label \<noteq> [] \<and> CHR '']'' \<notin> set label \<and> url \<noteq> [] \<and> CHR '')'' \<notin> set url)"

definition link_at :: "string \<Rightarrow> (string \<times> string \<times> string) option" where
  "link_at s =
     (case s of
        [] \<Rightarrow> None
      | c # s1 \<Rightarrow>
          if c \<noteq> CHR ''['' then None
          else (case dropWhile (\<lambda>x. x \<noteq> CHR '']'') s1 of
                  a # b # s2 \<Rightarrow>
                    if b \<noteq> CHR ''('' then None
                    else (case dropWhile (\<lambda>x. x \<noteq> CHR '')'') s2 of
                            e # rest \<Rightarrow>
                              if takeWhile (\<lambda>x. x \<noteq> CHR '']'') s1 \<noteq> []
                                 \<and> takeWhile (\<lambda>x. x \<noteq> CHR '')'') s2 \<noteq> []
                              then Some (takeWhile (\<lambda>x. x \<noteq> CHR '']'') s1,
                                         takeWhile (\<lambda>x. x \<noteq> CHR '')'') s2, rest)
                              else None
                          | [] \<Rightarrow> None)
                | _ \<Rightarrow> None))"

fun plain_before :: "string \<Rightarrow> string \<Rightarrow> bool" where
  "plain_before [] rest = True"
| "plain_before (c # cs) rest = (link_at (c # cs @ rest) = None \<and> plain_before cs rest)"

fun assemble :: "(string \<times> string \<times> string) list \<Rightarrow> string \<Rightarrow> string" where
  "assemble [] tail = tail"
| "assemble ((t, label, url) # segs) tail = t @ link_token label url @ assemble segs tail"

fun scanned :: "(string \<times> string \<times> string) list \<Rightarrow> string \<Rightarrow> bool" where
  "scanned [] tail = plain_before tail []"
| "scanned ((t, label, url) # segs) tail =
     (is_link label url \<and> plain_before t (link_token label url @ assemble segs tail)
      \<and> scanned segs tail)"

fun parts_of :: "string \<Rightarrow> (string \<times> string \<times> string) list \<Rightarrow> string \<Rightarrow> string list" where
  "parts_of pre [] tail = [pre @ tail]"
| "parts_of pre ((t, label, url) # segs) tail = (pre @ t) # label # url # parts_of [] segs tail"

definition link_line :: "string \<times> string \<times> string \<Rightarrow> string" where
  "link_line seg = (case seg of (t, label, url) \<Rightarrow> ''=> '' @ url @ '' '' @ label)"

section \<open>The end-to-end scenario\<close>

lemma e2e_split:
  "py_split ''---'' 2 ''---\<newline>title: Hello\<newline>date: 2024-01-02\<newline>summary: Intro text\<newline>---\<newline># Heading\<newline>\<newline>Some **bold** text with [link](https://x.org).''
   = [[], ''\<newline>title: Hello\<newline>date: 2024-01-02\<newline>summary: Intro text\<newline>'',
      ''\<newline># Heading\<newline>\<newline>Some **bold** text with [link](https://x.org).'']"
  by code_simp

lemma e2e_body:
  "process_body False
     (py_lines ''# Heading\<newline>\<newline>Some **bold** text with [link](https://x.org).'')
   = [''# Heading'', [], ''Some bold text with .\<newline>=> https://x.org link'']"
  by code_simp

lemma e2e_load:
  "flat_load ''\<newline>title: Hello\<newline>date: 2024-01-02\<newline>summary: Intro text\<newline>''
   = Inr (YMap [(YStr ''title'', YStr ''Hello''), (YStr ''date'', YDate 2024 1 2),
                (YStr ''summary'', YStr ''Intro text'')])"
  by code_simp

text \<open>
  Claim C1. The file with frontmatter \<open>title: Hello\<close>, \<open>date: 2024-01-02\<close>,
  \<open>summary: Intro text\<close> and the body of the scenario converts to the expected text: the
  title, date and summary blocks in this order, each followed by one blank line, then the
  heading kept, the bold markup stripped and the link moved to a line of its own after
  the text of its line. The loader is taken to read the frontmatter block as YAML
  prescribes, the date as a date value.
\<close>

theorem e2e_scenario:
  assumes "safe_load L ''\<newline>title: Hello\<newline>date: 2024-01-02\<newline>summary: Intro text\<newline>''
           = Inr (YMap [(YStr ''title'', YStr ''Hello''), (YStr ''date'', YDate 2024 1 2),
                        (YStr ''summary'', YStr ''Intro text'')])"
  shows "convert_markdown_to_gemtext L
           ''---\<newline>title: Hello\<newline>date: 2024-01-02\<newline>summary: Intro text\<newline>---\<newline># Heading\<newline>\<newline>Some **bold** text with [link](https://x.org).''
         = Inr ''# Hello\<newline>\<newline>Data: 2024-01-02\<newline>\<newline>Intro text\<newline>\<newline># Heading\<newline>\<newline>Some bold text with .\<newline>=> https://x.org link''"
proof -
  have strip:
    "py_strip ''\<newline># Heading\<newline>\<newline>Some **bold** text with [link](https://x.org).''
     = ''# Heading\<newline>\<newline>Some **bold** text with [link](https://x.org).''"
    by code_simp
  have "ymd 2024 1 2 = ''2024-01-02''"
    by code_simp
  then have d: "ymd 2024 (Suc 0) 2 = ''2024-01-02''"
    by simp
  have pf:
    "parse_frontmatter L ''---\<newline>title: Hello\<newline>date: 2024-01-02\<newline>summary: Intro text\<newline>---\<newline># Heading\<newline>\<newline>Some **bold** text with [link](https://x.org).''
     = Inr (YMap [(YStr ''title'', YStr ''Hello''), (YStr ''date'', YDate 2024 1 2),
                  (YStr ''summary'', YStr ''Intro text'')],
            ''# Heading\<newline>\<newline>Some **bold** text with [link](https://x.org).'')"
    unfolding parse_frontmatter_def e2e_split Let_def
    by (simp add: assms strip py_startswith_def)
  show ?thesis
    apply (simp only: convert_markdown_to_gemtext_def gemtext_lines_def pf sum.case prod.case
        yaml_value.case e2e_body)
    apply (simp add: title_block_def date_block_def summary_block_def join_values_def d)
    done
qed

theorem e2e_scenario_witness:
  "convert_markdown_to_gemtext flat_lib
     ''---\<newline>title: Hello\<newline>date: 2024-01-02\<newline>summary: Intro text\<newline>---\<newline># Heading\<newline>\<newline>Some **bold** text with [link](https://x.org).''
   = Inr ''# Hello\<newline>\<newline>Data: 2024-01-02\<newline>\<newline>Intro text\<newline>\<newline># Heading\<newline>\<newline>Some bold text with .\<newline>=> https://x.org link''"
  using e2e_scenario [of flat_lib] e2e_load by (simp add: flat_lib_def)

section \<open>Code blocks\<close>

lemma process_body_in_code:
  "\<forall>l \<in> set ls. \<not> py_startswith (py_strip l) fence \<Longrightarrow>
   process_body True (ls @ rest) = ls @ process_body True rest"
  by (induction ls) (simp_all add: process_line_def)

text \<open>
  Claim C3. After an opening fence line, every line up to the next fence line is appended
  to the output as it is, whatever it contains: a line met with the flag set that is no
  fence is emitted unchanged and leaves the flag set.
\<close>

theorem code_block_opacity:
  assumes "py_startswith (py_strip f) fence"
    and "\<forall>l \<in> set ls. \<not> py_startswith (py_strip l) fence"
  shows "process_body False (f # ls @ rest) = fence # ls @ process_body True rest \<and>
         (\<forall>l \<in> set ls. process_line True l = (True, [l]))"
  using assms by (simp add: process_line_def process_body_in_code)

theorem code_block_opacity_witness:
  "process_body False
     [''```python'', ''# Title'', ''- item [a](b)'', ''{{< x >}}'', ''**b** :e: `c`'', ''```'', ''# H'']
   = [''```'', ''# Title'', ''- item [a](b)'', ''{{< x >}}'', ''**b** :e: `c`'', ''```'', ''# H'']"
proof -
  have f: "py_startswith (py_strip ''```python'') fence"
    by code_simp
  have ls: "\<forall>l \<in> set [''# Title'', ''- item [a](b)'', ''{{< x >}}'', ''**b** :e: `c`''].
              \<not> py_startswith (py_strip l) fence"
    by code_simp
  have r: "process_body True [''```'', ''# H''] = [''```'', ''# H'']"
    by code_simp
  have fc: "fence = ''```''"
    by code_simp
  from code_block_opacity [OF f ls, of "[''```'', ''# H'']"]
  have "process_body False
          (''```python'' # [''# Title'', ''- item [a](b)'', ''{{< x >}}'', ''**b** :e: `c`'']
             @ [''```'', ''# H''])
        = fence # [''# Title'', ''- item [a](b)'', ''{{< x >}}'', ''**b** :e: `c`'']
            @ process_body True [''```'', ''# H'']"
    by (rule conjunct1)
  then show ?thesis
    by (simp only: r fc append.simps)
qed

section \<open>Shortcode lines\<close>

text \<open>
  Claim C6. Outside a code block, a line that is no fence and contains \<open>{{<\<close> or \<open>{{%\<close>
  is dropped whole: nothing is appended for it and the flag stays clear, whatever else
  the line holds. The figure shortcode of the specification gives no output.
\<close>

theorem shortcode_line_dropped:
  assumes "\<not> py_startswith (py_strip line) fence"
    and "py_in ''{{<'' line \<or> py_in ''{{%'' line"
  shows "process_line False line = (False, []) \<and>
         process_body False (line # rest) = process_body False rest"
  using assms by (auto simp add: process_line_def)

theorem shortcode_line_dropped_witness:
  \<open>process_body False [''{{< figure src="a.png" >}}''] = [] \<and>
   process_line False ''see {{% note %}} here'' = (False, [])\<close>
proof -
  have 1: \<open>\<not> py_startswith (py_strip ''{{< figure src="a.png" >}}'') fence\<close>
    by code_simp
  have 2: \<open>py_in ''{{<'' ''{{< figure src="a.png" >}}''\<close>
    by code_simp
  have 3: "\<not> py_startswith (py_strip ''see {{% note %}} here'') fence"
    by code_simp
  have 4: "py_in ''{{%'' ''see {{% note %}} here''"
    by code_simp
  from shortcode_line_dropped [OF 1 disjI1 [OF 2], of "[]"]
  have a: \<open>process_body False [''{{< figure src="a.png" >}}''] = process_body False []\<close>
    by (rule conjunct2)
  from shortcode_line_dropped [OF 3 disjI2 [OF 4], of "[]"]
  have b: "process_line False ''see {{% note %}} here'' = (False, [])"
    by (rule conjunct1)
  show ?thesis
    by (simp only: a b process_body.simps(1))
qed

section \<open>Frontmatter that is no mapping\<close>

text \<open>
  Claim C9. When the block between the first two delimiters loads as a value that is true
  in a condition and is no mapping (a string, a number, a date, a sequence),
  \<open>parse_frontmatter\<close> returns that value itself as the metadata, and
  \<open>convert_markdown_to_gemtext\<close> ends in an error, the lookup \<open>frontmatter.get\<close> being
  applied to it. The text of the four lines \<open>---\<close>, \<open>hello\<close>, \<open>---\<close>, \<open>body\<close> is such an
  input.
\<close>

theorem non_mapping_frontmatter:
  assumes "py_startswith content ''---''"
    and "py_split ''---'' 2 content = [p0, block, rest]"
    and "safe_load L block = Inr v"
    and "py_truthy v" and "\<not> is_mapping v"
  shows "parse_frontmatter L content = Inr (v, py_strip rest) \<and>
         convert_markdown_to_gemtext L content = Inl AttributeError"
proof -
  have pf: "parse_frontmatter L content = Inr (v, py_strip rest)"
    using assms by (simp add: parse_frontmatter_def)
  moreover have "gemtext_lines L content = Inl AttributeError"
    using assms(5) by (cases v) (simp_all add: gemtext_lines_def pf)
  ultimately show ?thesis
    by (simp add: convert_markdown_to_gemtext_def)
qed

theorem non_mapping_frontmatter_witness:
  "parse_frontmatter flat_lib ''---\<newline>hello\<newline>---\<newline>body'' = Inr (YStr ''hello'', ''body'') \<and>
   convert_markdown_to_gemtext flat_lib ''---\<newline>hello\<newline>---\<newline>body'' = Inl AttributeError"
proof -
  have 1: "py_split ''---'' 2 ''---\<newline>hello\<newline>---\<newline>body'' = [[], ''\<newline>hello\<newline>'', ''\<newline>body'']"
    by code_simp
  have 2: "safe_load flat_lib ''\<newline>hello\<newline>'' = Inr (YStr ''hello'')"
    unfolding flat_lib_def by code_simp
  have 3: "py_strip ''\<newline>body'' = ''body''"
    by code_simp
  have 4: "py_startswith ''---\<newline>hello\<newline>---\<newline>body'' ''---''"
    by code_simp
  have 5: "py_truthy (YStr ''hello'')" "\<not> is_mapping (YStr ''hello'')"
    by simp_all
  show ?thesis
    using non_mapping_frontmatter [OF 4 1 2 5] by (simp only: 3)
qed

section \<open>Malformed frontmatter\<close>

lemma py_count_0: "sep \<noteq> [] \<Longrightarrow> py_count sep s = 0 \<longleftrightarrow> py_find sep s = None"
  by (subst py_count.simps) (auto split: option.splits)

lemma py_find_start:
  "py_startswith s sep \<Longrightarrow> s \<noteq> [] \<Longrightarrow> py_find sep s = Some ([], drop (length sep) s)"
  by (cases s) simp_all

lemma split_no_second:
  assumes "py_startswith content ''---''" and "py_count ''---'' (drop 3 content) = 0"
  shows "py_split ''---'' 2 content = [[], drop 3 content]"
proof -
  have ne: "content \<noteq> []"
    using assms(1) by (auto simp: py_startswith_def)
  have "py_find ''---'' (drop 3 content) = None"
    using assms(2) py_count_0 [of "''---''" "drop 3 content"] by simp
  moreover have "py_find ''---'' content = Some ([], drop 3 content)"
    using py_find_start [OF assms(1) ne] by (simp add: numeral_3_eq_3)
  ultimately show ?thesis
    by (simp add: numeral_2_eq_2)
qed

text \<open>
  Claim C2, as stated, fails twice. A text with exactly one \<open>---\<close> after the opening one
  has fewer than two of them and is the well-formed case, whose block is loaded and whose
  body is trimmed. And a block that fails to load with an exception other than
  \<open>YAMLError\<close>, here the date \<open>2024-02-30\<close>, is not caught: the function raises and
  returns nothing.
\<close>

theorem malformed_frontmatter_counterexample:
  "py_startswith ''---\<newline>title: x\<newline>---\<newline>body'' ''---'' \<and>
   py_count ''---'' (drop 3 ''---\<newline>title: x\<newline>---\<newline>body'') < 2 \<and>
   parse_frontmatter flat_lib ''---\<newline>title: x\<newline>---\<newline>body''
     = Inr (YMap [(YStr ''title'', YStr ''x'')], ''body'') \<and>
   parse_frontmatter flat_lib ''---\<newline>title: x\<newline>---\<newline>body''
     \<noteq> Inr (YMap [], ''---\<newline>title: x\<newline>---\<newline>body'') \<and>
   py_split ''---'' 2 ''---\<newline>date: 2024-02-30\<newline>---\<newline>body''
     = [[], ''\<newline>date: 2024-02-30\<newline>'', ''\<newline>body''] \<and>
   safe_load flat_lib ''\<newline>date: 2024-02-30\<newline>'' = Inl ValueError \<and>
   parse_frontmatter flat_lib ''---\<newline>date: 2024-02-30\<newline>---\<newline>body'' = Inl ValueError \<and>
   parse_frontmatter flat_lib ''---\<newline>date: 2024-02-30\<newline>---\<newline>body''
     \<noteq> Inr (YMap [], ''---\<newline>date: 2024-02-30\<newline>---\<newline>body'')"
  unfolding flat_lib_def by code_simp

text \<open>
  Claim C2, amended. For every text that begins with \<open>---\<close>: when no further \<open>---\<close>
  follows the opening one, or when loading the block between the first two delimiters
  raises \<open>YAMLError\<close>, \<open>parse_frontmatter\<close> returns the empty mapping and the whole text,
  untrimmed, as the body.
\<close>

theorem malformed_frontmatter:
  assumes "py_startswith content ''---''"
    and "py_count ''---'' (drop 3 content) = 0 \<or>
         (\<exists>p0 block rest. py_split ''---'' 2 content = [p0, block, rest] \<and>
                           safe_load L block = Inl YAMLError)"
  shows "parse_frontmatter L content = Inr (YMap [], content)"
  using assms(2)
proof
  assume "py_count ''---'' (drop 3 content) = 0"
  then show ?thesis
    using split_no_second [OF assms(1)] by (simp add: parse_frontmatter_def)
next
  assume "\<exists>p0 block rest. py_split ''---'' 2 content = [p0, block, rest] \<and>
                          safe_load L block = Inl YAMLError"
  then show ?thesis
    by (auto simp: parse_frontmatter_def)
qed

theorem malformed_frontmatter_witness:
  "parse_frontmatter flat_lib ''---\<newline>title: x\<newline>body ''
     = Inr (YMap [], ''---\<newline>title: x\<newline>body '') \<and>
   parse_frontmatter flat_lib ''---\<newline>title: [x\<newline>---\<newline>body ''
     = Inr (YMap [], ''---\<newline>title: [x\<newline>---\<newline>body '')"
proof -
  have 1: "py_startswith ''---\<newline>title: x\<newline>body '' ''---''"
    by code_simp
  have 2: "py_count ''---'' (drop 3 ''---\<newline>title: x\<newline>body '') = 0"
    by code_simp
  have 3: "py_startswith ''---\<newline>title: [x\<newline>---\<newline>body '' ''---''"
    by code_simp
  have 4: "py_split ''---'' 2 ''---\<newline>title: [x\<newline>---\<newline>body ''
           = [[], ''\<newline>title: [x\<newline>'', ''\<newline>body '']"
    by code_simp
  have 5: "safe_load flat_lib ''\<newline>title: [x\<newline>'' = Inl YAMLError"
    unfolding flat_lib_def by code_simp
  have 6: "\<exists>p0 block rest.
             py_split ''---'' 2 ''---\<newline>title: [x\<newline>---\<newline>body '' = [p0, block, rest] \<and>
             safe_load flat_lib block = Inl YAMLError"
    using 4 5 by blast
  show ?thesis
    by (rule conjI [OF malformed_frontmatter [OF 1 disjI1 [OF 2]]
                       malformed_frontmatter [OF 3 disjI2 [OF 6]]])
qed

section \<open>Properties of the matcher\<close>

text \<open>
  A greedy repetition followed by a character outside its class can only stop at the end
  of the run: every shorter count leaves a character of the class where the next one is
  expected.
\<close>

lemma rmany_fail:
  "(\<And>j. j \<le> k \<Longrightarrow> rmatch ps (drop j s) = None) \<Longrightarrow> rmany cap lo ps s k = None"
proof (induction k)
  case 0
  then show ?case by (subst rmany.simps) simp
next
  case (Suc k)
  have "rmatch ps (drop (Suc k) s) = None"
    using Suc.prems by blast
  moreover have "rmany cap lo ps s k = None"
    using Suc.prems by (intro Suc.IH) simp
  ultimately show ?case by (subst rmany.simps) simp
qed

lemma rmany_hit:
  "rmatch ps (drop k s) = Some (gs, r) \<Longrightarrow>
   rmany cap lo ps s k = Some (if cap then take k s # gs else gs, r)"
  by (subst rmany.simps) simp

lemma rmatch_lit_Cons: "rmatch (lit c # ps) (x # xs) = (if x = c then rmatch ps xs else None)"
  by (simp add: lit_def)

lemma rmatch_lit_Nil: "rmatch (lit c # ps) [] = None"
  by (simp add: lit_def)

lemma drop_in_class:
  assumes "j < length (takeWhile P s)"
  shows "\<exists>x xs. drop j s = x # xs \<and> P x"
proof -
  have js: "j < length s"
    using assms length_takeWhile_le [of P s] by simp
  have "P (s ! j)"
    using assms by (metis nth_mem set_takeWhileD takeWhile_nth)
  moreover have "drop j s = s ! j # drop (Suc j) s"
    using js by (simp add: Cons_nth_drop_Suc)
  ultimately show ?thesis by blast
qed

lemma rmatch_Many:
  "rmatch (Many cap P lo None # ps) s =
     (if length (takeWhile P s) < lo then None else rmany cap lo ps s (length (takeWhile P s)))"
  by (simp add: Let_def)

lemma rmatch_Many_lit:
  assumes "\<not> P c"
  shows "rmatch (Many cap P lo None # lit c # ps) s =
           (if length (takeWhile P s) < lo then None
            else (case rmatch (lit c # ps) (dropWhile P s) of
                    None \<Rightarrow> None
                  | Some (gs, r) \<Rightarrow> Some (if cap then takeWhile P s # gs else gs, r)))"
proof (cases "length (takeWhile P s) < lo")
  case True
  then show ?thesis by (simp only: rmatch_Many if_True)
next
  case False
  let ?n = "length (takeWhile P s)"
  have dn: "drop ?n s = dropWhile P s"
    by (rule dropWhile_eq_drop [symmetric])
  have tn: "take ?n s = takeWhile P s"
    by (rule takeWhile_eq_take [symmetric])
  have below: "rmatch (lit c # ps) (drop j s) = None" if "j < ?n" for j
  proof -
    from drop_in_class [OF that] obtain x xs where "drop j s = x # xs" "P x"
      by blast
    with assms show ?thesis
      by (auto simp: rmatch_lit_Cons)
  qed
  show ?thesis
  proof (cases "rmatch (lit c # ps) (dropWhile P s)")
    case None
    have "rmatch (lit c # ps) (drop j s) = None" if "j \<le> ?n" for j
      using that below [of j] None dn by (cases "j = ?n") auto
    then have "rmany cap lo (lit c # ps) s ?n = None"
      by (rule rmany_fail)
    with False None show ?thesis
      by (simp only: rmatch_Many if_False option.case)
  next
    case (Some a)
    obtain gs r where a: "a = (gs, r)" by (cases a)
    have "rmany cap lo (lit c # ps) s ?n = Some (if cap then take ?n s # gs else gs, r)"
      using Some a dn by (intro rmany_hit) simp
    with False Some a tn show ?thesis
      by (simp only: rmatch_Many if_False option.case prod.case)
  qed
qed

lemma rmatch_delim:
  assumes "\<not> P c" and "rmatch (Many True P 1 None # lit c # ps) s = Some (gs, r)"
  shows "\<exists>g s' gs'. s = g @ c # s' \<and> g \<noteq> [] \<and> (\<forall>x \<in> set g. P x) \<and>
                     rmatch ps s' = Some (gs', r) \<and> gs = g # gs'"
proof -
  let ?g = "takeWhile P s"
  note eq = rmatch_Many_lit [where P = P and c = c and cap = True and lo = 1 and ps = ps and s = s, OF assms(1)]
  from assms(2) have len: "\<not> length ?g < 1"
    unfolding eq by (simp split: if_splits)
  from assms(2) len obtain gs' where m: "rmatch (lit c # ps) (dropWhile P s) = Some (gs', r)" and gs: "gs = ?g # gs'"
    unfolding eq by (auto split: option.splits prod.splits)
  from m obtain s' where d: "dropWhile P s = c # s'" and m': "rmatch ps s' = Some (gs', r)"
    by (cases "dropWhile P s") (auto simp: rmatch_lit_Nil rmatch_lit_Cons split: if_splits)
  have "s = ?g @ c # s'"
    using d takeWhile_dropWhile_id [of P s] by simp
  moreover have "?g \<noteq> []" using len by auto
  moreover have "\<forall>x \<in> set ?g. P x" by (auto dest: set_takeWhileD)
  ultimately show ?thesis using m' gs by blast
qed

lemma italic_match:
  assumes "rmatch italic_pattern s = Some (gs, r)"
  shows "\<exists>g. s = CHR ''*'' # g @ CHR ''*'' # r \<and> gs = [g]"
proof -
  from assms obtain s1 where s: "s = CHR ''*'' # s1"
    and m: "rmatch (Many True (\<lambda>c. c \<noteq> CHR ''*'') 1 None # lit CHR ''*'' # []) s1 = Some (gs, r)"
    by (cases s) (auto simp: italic_pattern_def rmatch_lit_Nil rmatch_lit_Cons simp del: rmatch.simps split: if_splits)
  from rmatch_delim [OF _ m] obtain g s' gs' where "s1 = g @ CHR ''*'' # s'" "rmatch [] s' = Some (gs', r)" "gs = g # gs'"
    by auto
  with s show ?thesis by auto
qed

lemma code_match:
  assumes "rmatch code_pattern s = Some (gs, r)"
  shows "\<exists>g. s = CHR 0x60 # g @ CHR 0x60 # r \<and> gs = [g]"
proof -
  from assms obtain s1 where s: "s = CHR 0x60 # s1"
    and m: "rmatch (Many True (\<lambda>c. c \<noteq> CHR 0x60) 1 None # lit CHR 0x60 # []) s1 = Some (gs, r)"
    by (cases s) (auto simp: code_pattern_def rmatch_lit_Nil rmatch_lit_Cons simp del: rmatch.simps split: if_splits)
  from rmatch_delim [OF _ m] obtain g s' gs' where "s1 = g @ CHR 0x60 # s'" "rmatch [] s' = Some (gs', r)" "gs = g # gs'"
    by auto
  with s show ?thesis by auto
qed

lemma bold_match:
  assumes "rmatch bold_pattern s = Some (gs, r)"
  shows "\<exists>g. s = ''**'' @ g @ ''**'' @ r \<and> gs = [g]"
proof -
  from assms obtain s1 where s: "s = CHR ''*'' # CHR ''*'' # s1"
    and m: "rmatch (Many True (\<lambda>c. c \<noteq> CHR ''*'') 1 None # lit CHR ''*'' # [lit CHR ''*'']) s1 = Some (gs, r)"
    by (cases s; cases "tl s") (auto simp: bold_pattern_def rmatch_lit_Nil rmatch_lit_Cons simp del: rmatch.simps split: if_splits)
  from rmatch_delim [OF _ m] obtain g s' gs' where g: "s1 = g @ CHR ''*'' # s'" "rmatch [lit CHR ''*''] s' = Some (gs', r)" "gs = g # gs'"
    by auto
  from g(2) have "s' = CHR ''*'' # r \<and> gs' = []"
    by (cases s') (auto simp: rmatch_lit_Nil rmatch_lit_Cons split: if_splits)
  with s g show ?thesis by auto
qed

lemma re_sub_filter:
  assumes "\<And>s gs r. rmatch p s = Some (gs, r) \<Longrightarrow>
             length r < length s \<and> filter Q (repl gs) @ filter Q r = filter Q s"
  shows "filter Q (re_sub p repl s) = filter Q s"
proof (induction s rule: length_induct)
  case (1 s)
  show ?case
  proof (cases "rmatch p s")
    case None
    show ?thesis
    proof (cases s)
      case Nil
      with None show ?thesis by (subst re_sub.simps) simp
    next
      case (Cons c cs)
      then have "filter Q (re_sub p repl cs) = filter Q cs"
        using "1.IH" by simp
      with None Cons show ?thesis by (subst re_sub.simps) simp
    qed
  next
    case (Some a)
    obtain gs r where a: "a = (gs, r)" by (cases a)
    have *: "length r < length s" "filter Q (repl gs) @ filter Q r = filter Q s"
      using assms [of s gs r] Some a by auto
    have "filter Q (re_sub p repl r) = filter Q r"
      using "1.IH" *(1) by simp
    with Some a * show ?thesis by (subst re_sub.simps) simp
  qed
qed

lemma strip_inline_filter:
  "filter (\<lambda>c. c \<noteq> CHR ''*'' \<and> c \<noteq> CHR 0x60) (strip_inline t)
   = filter (\<lambda>c. c \<noteq> CHR ''*'' \<and> c \<noteq> CHR 0x60) t"
proof -
  let ?Q = "\<lambda>c. c \<noteq> CHR ''*'' \<and> c \<noteq> CHR 0x60"
  have b: "filter ?Q (re_sub bold_pattern group1 s) = filter ?Q s" for s
    by (rule re_sub_filter) (auto dest!: bold_match simp: group1_def)
  have i: "filter ?Q (re_sub italic_pattern group1 s) = filter ?Q s" for s
    by (rule re_sub_filter) (auto dest!: italic_match simp: group1_def)
  have c: "filter ?Q (re_sub code_pattern group1 s) = filter ?Q s" for s
    by (rule re_sub_filter) (auto dest!: code_match simp: group1_def)
  show ?thesis
    by (simp only: strip_inline_def b i c)
qed

section \<open>List items\<close>

lemma py_strip_Cons: "\<not> py_isspace c \<Longrightarrow> py_strip (c # cs) = c # rev (dropWhile py_isspace (rev cs))"
  by (simp add: py_strip_def dropWhile_append3)

lemma hash_not_space: "\<not> py_isspace CHR ''#''"
  by (simp add: py_isspace_def)

lemma header_match_None:
  assumes "py_startswith (py_strip line) ''- '' \<or> py_startswith (py_strip line) ''* ''"
  shows "header_match line = None"
proof (cases "py_startswith line ''#''")
  case True
  then obtain cs where "line = CHR ''#'' # cs"
    by (cases line) (auto simp: py_startswith_def)
  then have "py_strip line = CHR ''#'' # rev (dropWhile py_isspace (rev cs))"
    by (simp add: py_strip_Cons hash_not_space)
  with assms show ?thesis
    by (simp add: py_startswith_def)
next
  case False
  then show ?thesis by (simp add: header_match_def)
qed

lemma item_not_fence:
  assumes "py_startswith s ''- '' \<or> py_startswith s ''* ''"
  shows "\<not> py_startswith s fence" and "\<not> py_startswith s ''**''"
  using assms by (cases s; cases "tl s"; auto simp: py_startswith_def fence_def)+

lemma rmatch_lit_None: "c \<notin> set s \<Longrightarrow> rmatch (lit c # ps) s = None"
  by (cases s) (auto simp: lit_def)

lemma re_sub_id: "c \<notin> set s \<Longrightarrow> re_sub (lit c # ps) repl s = s"
proof (induction s)
  case Nil
  then show ?case by (subst re_sub.simps) (simp add: rmatch_lit_None)
next
  case (Cons a s)
  then have "rmatch (lit c # ps) (a # s) = None"
    by (intro rmatch_lit_None) simp
  with Cons show ?case by (subst re_sub.simps) simp
qed

lemma strip_inline_id:
  assumes "CHR ''*'' \<notin> set t" and "CHR 0x60 \<notin> set t"
  shows "strip_inline t = t"
  using assms by (simp add: strip_inline_def bold_pattern_def italic_pattern_def code_pattern_def re_sub_id)

lemma re_sub_subseq:
  assumes "\<And>s gs r. rmatch p s = Some (gs, r) \<Longrightarrow>
             length r < length s \<and> (\<exists>a b. s = a @ repl gs @ b @ r)"
  shows "subseq (re_sub p repl s) s"
proof (induction s rule: length_induct)
  case (1 s)
  show ?case
  proof (cases "rmatch p s")
    case None
    show ?thesis
    proof (cases s)
      case Nil
      with None show ?thesis by (subst re_sub.simps) simp
    next
      case (Cons c cs)
      then have "subseq (re_sub p repl cs) cs"
        using "1.IH" by simp
      with None Cons show ?thesis by (subst re_sub.simps) simp
    qed
  next
    case (Some a)
    obtain gs r where a: "a = (gs, r)" by (cases a)
    from assms [of s gs r] Some a obtain x y where
      *: "length r < length s" "s = x @ repl gs @ y @ r"
      by auto
    have "subseq (re_sub p repl r) r"
      using "1.IH" *(1) by simp
    then have "subseq (re_sub p repl r) (y @ r)"
      by (rule list_emb_append2)
    then have "subseq (repl gs @ re_sub p repl r) (repl gs @ y @ r)"
      by (simp add: subseq_append')
    then have "subseq (repl gs @ re_sub p repl r) (x @ repl gs @ y @ r)"
      by (rule list_emb_append2)
    moreover have "re_sub p repl s = repl gs @ re_sub p repl r"
      using Some a *(1) by (subst re_sub.simps) simp
    ultimately show ?thesis using *(2) by simp
  qed
qed

lemma strip_inline_subseq: "subseq (strip_inline t) t"
proof -
  have b: "subseq (re_sub bold_pattern group1 s) s" for s
  proof (rule re_sub_subseq)
    fix s gs r assume "rmatch bold_pattern s = Some (gs, r)"
    from bold_match [OF this] obtain g where "s = ''**'' @ g @ ''**'' @ r" "gs = [g]" by blast
    then show "length r < length s \<and> (\<exists>a b. s = a @ group1 gs @ b @ r)"
      by (auto simp: group1_def intro!: exI [of _ "''**''"])
  qed
  have i: "subseq (re_sub italic_pattern group1 s) s" for s
  proof (rule re_sub_subseq)
    fix s gs r assume "rmatch italic_pattern s = Some (gs, r)"
    from italic_match [OF this] obtain g where "s = ''*'' @ g @ ''*'' @ r" "gs = [g]" by auto
    then show "length r < length s \<and> (\<exists>a b. s = a @ group1 gs @ b @ r)"
      by (auto simp: group1_def intro!: exI [of _ "''*''"])
  qed
  have c: "subseq (re_sub code_pattern group1 s) s" for s
  proof (rule re_sub_subseq)
    fix s gs r assume "rmatch code_pattern s = Some (gs, r)"
    from code_match [OF this] obtain g where "s = [CHR 0x60] @ g @ [CHR 0x60] @ r" "gs = [g]" by auto
    then show "length r < length s \<and> (\<exists>a b. s = a @ group1 gs @ b @ r)"
      by (auto simp: group1_def intro!: exI [of _ "[CHR 0x60]"])
  qed
  show ?thesis
    unfolding strip_inline_def
    by (rule subseq_order.trans [OF c subseq_order.trans [OF i b]])
qed

lemma kept_stretch:
  assumes "subseq out (a @ tok @ b)"
    and "filter Q out = filter Q (a @ tok @ b)"
    and "\<forall>c \<in> set tok. Q c"
  shows "\<exists>a' b'. out = a' @ tok @ b'"
proof -
  from assms(1) obtain oa r where out: "out = oa @ r" and oa: "subseq oa a"
    and r: "subseq r (tok @ b)"
    by (rule subseq_appendE)
  from r obtain ot ob where r': "r = ot @ ob" and ot: "subseq ot tok" and ob: "subseq ob b"
    by (rule subseq_appendE)
  have "set ot \<subseteq> set tok"
    using ot by (auto elim: list_emb_set)
  then have fot: "filter Q ot = ot"
    using assms(3) by (auto simp: filter_id_conv)
  have ftok: "filter Q tok = tok"
    using assms(3) by (auto simp: filter_id_conv)
  have la: "length (filter Q oa) \<le> length (filter Q a)"
    using oa by (intro list_emb_length [where P = "(=)"] subseq_filter)
  have lb: "length (filter Q ob) \<le> length (filter Q b)"
    using ob by (intro list_emb_length [where P = "(=)"] subseq_filter)
  have lt: "length ot \<le> length tok"
    using ot by (rule list_emb_length)
  have "length (filter Q oa) + length ot + length (filter Q ob)
        = length (filter Q a) + length tok + length (filter Q b)"
    using arg_cong [OF assms(2), of length] by (simp add: out r' fot ftok)
  with la lb lt have "length ot = length tok"
    by linarith
  with ot have "ot = tok"
    by (rule subseq_same_length)
  with out r' show ?thesis
    by auto
qed

text \<open>
  Claim C10, as stated, fails twice. A list item that contains a shortcode is dropped by
  the shortcode rule, which comes first. And a link token is not always left verbatim:
  the italic substitution runs over the whole item, so the token \<open>[a*b](c*d)\<close> comes out
  as \<open>[ab](cd)\<close>.
\<close>

theorem list_item_line_counterexample:
  "py_startswith (py_strip ''- a {{< b >}}'') ''- '' \<and>
   process_line False ''- a {{< b >}}'' = (False, []) \<and>
   py_startswith (py_strip ''- [a*b](c*d)'') ''- '' \<and>
   link_at ''[a*b](c*d)'' = Some (''a*b'', ''c*d'', []) \<and>
   process_line False ''- [a*b](c*d)'' = (False, [''* [ab](cd)''])"
  by code_simp

text \<open>
  Claim C10, amended. Outside a code block, a line whose stripped form starts with \<open>- \<close>
  or \<open>* \<close> and that contains neither \<open>{{<\<close> nor \<open>{{%\<close> is emitted as \<open>* \<close> followed by
  the rest of the stripped line after the three emphasis substitutions only. These delete
  nothing but \<open>*\<close> and backquote characters: the text emitted is a subsequence of the
  item that keeps every other character, every stretch of the item without \<open>*\<close> and
  backquote, such as a link token or a \<open>:word:\<close> code without them, is in the output
  verbatim, and an item without \<open>*\<close> and backquote is emitted verbatim as a whole. No
  link line is added.
\<close>

theorem list_item_line:
  assumes "py_startswith (py_strip line) ''- '' \<or> py_startswith (py_strip line) ''* ''"
    and "\<not> py_in ''{{<'' line" and "\<not> py_in ''{{%'' line"
  shows "process_line False line = (False, [''* '' @ strip_inline (drop 2 (py_strip line))]) \<and>
         subseq (strip_inline (drop 2 (py_strip line))) (drop 2 (py_strip line)) \<and>
         filter (\<lambda>c. c \<noteq> CHR ''*'' \<and> c \<noteq> CHR 0x60) (strip_inline (drop 2 (py_strip line)))
           = filter (\<lambda>c. c \<noteq> CHR ''*'' \<and> c \<noteq> CHR 0x60) (drop 2 (py_strip line)) \<and>
         (CHR ''*'' \<notin> set (drop 2 (py_strip line)) \<and> CHR 0x60 \<notin> set (drop 2 (py_strip line)) \<longrightarrow>
            process_line False line = (False, [''* '' @ drop 2 (py_strip line)])) \<and>
         (\<forall>a tok b. drop 2 (py_strip line) = a @ tok @ b \<and> CHR ''*'' \<notin> set tok \<and>
                    CHR 0x60 \<notin> set tok \<longrightarrow>
            (\<exists>a' b'. process_line False line = (False, [''* '' @ a' @ tok @ b'])))"
proof -
  let ?item = "drop 2 (py_strip line)"
  have out: "process_line False line = (False, [''* '' @ strip_inline ?item])"
    using assms item_not_fence [OF assms(1)] header_match_None [OF assms(1)]
    by (simp add: process_line_def rewrite_line_def)
  have "\<exists>a' b'. strip_inline ?item = a' @ tok @ b'"
    if "?item = a @ tok @ b" "CHR ''*'' \<notin> set tok" "CHR 0x60 \<notin> set tok" for a tok b
  proof (rule kept_stretch [where Q = "\<lambda>c. c \<noteq> CHR ''*'' \<and> c \<noteq> CHR 0x60"])
    show "subseq (strip_inline ?item) (a @ tok @ b)"
      using strip_inline_subseq [of ?item] that(1) by simp
    show "filter (\<lambda>c. c \<noteq> CHR ''*'' \<and> c \<noteq> CHR 0x60) (strip_inline ?item)
          = filter (\<lambda>c. c \<noteq> CHR ''*'' \<and> c \<noteq> CHR 0x60) (a @ tok @ b)"
      using strip_inline_filter [of ?item] that(1) by simp
    show "\<forall>c \<in> set tok. c \<noteq> CHR ''*'' \<and> c \<noteq> CHR 0x60"
      using that(2,3) by auto
  qed
  then have kept: "\<forall>a tok b. ?item = a @ tok @ b \<and> CHR ''*'' \<notin> set tok \<and> CHR 0x60 \<notin> set tok \<longrightarrow>
            (\<exists>a' b'. process_line False line = (False, [''* '' @ a' @ tok @ b']))"
    unfolding out by blast
  have whole: "CHR ''*'' \<notin> set ?item \<and> CHR 0x60 \<notin> set ?item \<longrightarrow>
            process_line False line = (False, [''* '' @ ?item])"
    unfolding out by (simp add: strip_inline_id)
  show ?thesis
    using out kept whole strip_inline_subseq [of ?item] strip_inline_filter [of ?item]
    by (intro conjI) simp_all
qed

theorem list_item_line_witness:
  "process_line False ''- see [a](b) :smile: **bold**'' = (False, [''* see [a](b) :smile: bold'']) \<and>
   process_line False ''  * see [a](b) :smile:'' = (False, [''* see [a](b) :smile:'']) \<and>
   (\<exists>a' b'. process_line False ''- see [a](b) :smile: **bold**''
              = (False, [''* '' @ a' @ ''[a](b) :smile:'' @ b']))"
proof -
  have 1: "py_startswith (py_strip ''- see [a](b) :smile: **bold**'') ''- ''"
    by code_simp
  have 2: "\<not> py_in ''{{<'' ''- see [a](b) :smile: **bold**''"
    "\<not> py_in ''{{%'' ''- see [a](b) :smile: **bold**''"
    by code_simp+
  have 3: "strip_inline (drop 2 (py_strip ''- see [a](b) :smile: **bold**''))
           = ''see [a](b) :smile: bold''"
    by code_simp
  have 4: "py_startswith (py_strip ''  * see [a](b) :smile:'') ''* ''"
    by code_simp
  have 5: "\<not> py_in ''{{<'' ''  * see [a](b) :smile:''" "\<not> py_in ''{{%'' ''  * see [a](b) :smile:''"
    by code_simp+
  have 6: "drop 2 (py_strip ''  * see [a](b) :smile:'') = ''see [a](b) :smile:''"
    by code_simp
  have 7: "CHR ''*'' \<notin> set ''see [a](b) :smile:'' \<and> CHR 0x60 \<notin> set ''see [a](b) :smile:''"
    by simp
  have 8: "drop 2 (py_strip ''- see [a](b) :smile: **bold**'')
           = ''see '' @ ''[a](b) :smile:'' @ '' **bold**''"
    by code_simp
  have 9: "CHR ''*'' \<notin> set ''[a](b) :smile:''" "CHR 0x60 \<notin> set ''[a](b) :smile:''"
    by simp_all
  note item = list_item_line [OF disjI1 [OF 1] 2]
  from item
  have a: "process_line False ''- see [a](b) :smile: **bold**''
           = (False, [''* '' @ strip_inline (drop 2 (py_strip ''- see [a](b) :smile: **bold**''))])"
    by (rule conjunct1)
  from list_item_line [OF disjI2 [OF 4] 5]
  have b: "process_line False ''  * see [a](b) :smile:'' = (False, [''* '' @ ''see [a](b) :smile:''])"
    unfolding 6 using 7 by blast
  from item 8 9
  have c: "\<exists>a' b'. process_line False ''- see [a](b) :smile: **bold**''
              = (False, [''* '' @ a' @ ''[a](b) :smile:'' @ b'])"
    by blast
  have ab: "process_line False ''- see [a](b) :smile: **bold**'' = (False, [''* see [a](b) :smile: bold''])"
    "process_line False ''  * see [a](b) :smile:'' = (False, [''* see [a](b) :smile:''])"
    unfolding a b 3 by simp_all
  show ?thesis
    using ab c by blast
qed

section \<open>Headings\<close>

lemma py_lines_no_newline: "l \<in> set (py_lines s) \<Longrightarrow> CHR 0x0A \<notin> set l"
proof (induction s arbitrary: l)
  case Nil
  then show ?case by simp
next
  case (Cons c cs)
  show ?case
  proof (cases "c = CHR 0x0A")
    case True
    with Cons show ?thesis by auto
  next
    case False
    then show ?thesis
      using Cons by (cases "py_lines cs") auto
  qed
qed

lemma header_match_deep:
  assumes "CHR 0x0A \<notin> set t"
  shows "header_match (''####'' @ t) = Some [''###'', ''#'' @ t]"
proof -
  let ?s = "''####'' @ t"
  let ?dot = "\<lambda>c. c \<noteq> CHR 0x0A"
  let ?hash = "\<lambda>c. c = CHR ''#''"
  have all: "takeWhile ?dot (CHR ''#'' # t) = CHR ''#'' # t"
    using assms by (auto simp add: takeWhile_eq_all_conv)
  have e: "rmatch [Eol] (drop (length (CHR ''#'' # t)) (CHR ''#'' # t)) = Some ([], [])"
    by simp
  have "rmany True 1 [Eol] (CHR ''#'' # t) (length (CHR ''#'' # t)) = Some ([CHR ''#'' # t], [])"
    using rmany_hit [OF e, of True 1] by simp
  then have body: "rmatch [Many True ?dot 1 None, Eol] (CHR ''#'' # t) = Some ([CHR ''#'' # t], [])"
    by (simp only: rmatch_Many all) simp
  have sp: "takeWhile py_isspace (CHR ''#'' # t) = []"
    by (simp add: hash_not_space)
  have "rmatch [Many True ?dot 1 None, Eol] (drop 0 (CHR ''#'' # t)) = Some ([CHR ''#'' # t], [])"
    using body by simp
  from rmany_hit [OF this, of False 0]
  have "rmany False 0 [Many True ?dot 1 None, Eol] (CHR ''#'' # t) 0 = Some ([CHR ''#'' # t], [])"
    by simp
  then have ws: "rmatch [Many False py_isspace 0 None, Many True ?dot 1 None, Eol] (CHR ''#'' # t)
                 = Some ([CHR ''#'' # t], [])"
    by (simp only: rmatch_Many sp) simp
  have n: "min 3 (length (takeWhile ?hash ?s)) = 3"
    by simp
  have "rmatch [Many False py_isspace 0 None, Many True ?dot 1 None, Eol] (drop 3 ?s)
        = Some ([CHR ''#'' # t], [])"
    using ws by simp
  from rmany_hit [OF this, of True 1]
  have "rmany True 1 [Many False py_isspace 0 None, Many True ?dot 1 None, Eol] ?s 3
        = Some ([''###'', CHR ''#'' # t], [])"
    by simp
  then have "rmatch header_pattern ?s = Some ([''###'', CHR ''#'' # t], [])"
    unfolding header_pattern_def rmatch.simps Let_def option.case n by simp
  then show ?thesis
    by (simp add: header_match_def py_startswith_def)
qed

lemma rewrite_line_deep:
  assumes "CHR 0x0A \<notin> set t"
  shows "rewrite_line (''####'' @ t) = ''### #'' @ t"
  using header_match_deep [OF assms]
  by (simp add: rewrite_line_def group1_def group2_def)

text \<open>
  Claim C4. The lines \<open># A\<close>, \<open>## A\<close> and \<open>### A\<close> are emitted unchanged. The line
  \<open>#### A\<close> does match the header pattern: the first group takes three \<open>#\<close>, the
  whitespace run is empty and the text group takes the fourth \<open>#\<close> with the rest, so the
  line is emitted as the heading \<open>### # A\<close> and not as regular text. The same holds for
  every line that starts with four \<open>#\<close> (\<open>rewrite_line_deep\<close>).
\<close>

theorem heading_levels:
  "process_body False [''# A''] = [''# A''] \<and>
   process_body False [''## A''] = [''## A''] \<and>
   process_body False [''### A''] = [''### A''] \<and>
   header_match ''#### A'' = Some [''###'', ''# A''] \<and>
   process_body False [''#### A''] = [''### # A'']"
  by code_simp

section \<open>The date line\<close>

lemma dec_digits: "list_all is_digit (dec n)"
proof (induction n rule: dec.induct)
  case (1 n)
  show ?case
  proof (cases "n < 10")
    case True
    then show ?thesis
      by (subst dec.simps) (simp add: is_digit_def)
  next
    case False
    have "n mod 10 < 10" by simp
    then have "is_digit (char_of (48 + n mod 10))"
      by (simp add: is_digit_def)
    with False "1.IH" show ?thesis
      by (subst dec.simps) simp
  qed
qed

lemma length_dec: "n < 10 ^ w \<Longrightarrow> 0 < w \<Longrightarrow> length (dec n) \<le> w"
proof (induction n arbitrary: w rule: dec.induct)
  case (1 n)
  show ?case
  proof (cases "n < 10")
    case True
    with "1.prems" show ?thesis
      by (subst dec.simps) simp
  next
    case False
    with "1.prems" obtain v where w: "w = Suc v"
      by (cases w) auto
    with False "1.prems" have v: "0 < v"
      by (cases v) auto
    have "n div 10 < 10 ^ v"
      using "1.prems" w by (simp add: less_mult_imp_div_less mult.commute)
    then have "length (dec (n div 10)) \<le> v"
      using "1.IH" False v by simp
    with False w show ?thesis
      by (subst dec.simps) simp
  qed
qed

lemma pad0_shape:
  assumes "n < 10 ^ w" and "0 < w"
  shows "length (pad0 w n) = w \<and> list_all is_digit (pad0 w n)"
proof -
  have "is_digit CHR ''0''" by (simp add: is_digit_def)
  then show ?thesis
    using length_dec [OF assms] dec_digits [of n]
    by (auto simp add: pad0_def list_all_iff)
qed

lemma ymd_shape:
  assumes "y < 10000" and "m < 100" and "d < 100"
  shows "\<exists>a b c. ymd y m d = a @ ''-'' @ b @ ''-'' @ c \<and> length a = 4 \<and> length b = 2 \<and>
                  length c = 2 \<and> list_all is_digit (a @ b @ c)"
proof -
  have "length (pad0 4 y) = 4 \<and> list_all is_digit (pad0 4 y)"
    using assms(1) by (intro pad0_shape) simp_all
  moreover have "length (pad0 2 m) = 2 \<and> list_all is_digit (pad0 2 m)"
    using assms(2) by (intro pad0_shape) simp_all
  moreover have "length (pad0 2 d) = 2 \<and> list_all is_digit (pad0 2 d)"
    using assms(3) by (intro pad0_shape) simp_all
  ultimately show ?thesis
    unfolding ymd_def by (intro exI [of _ "pad0 4 y"] exI [of _ "pad0 2 m"] exI [of _ "pad0 2 d"]) simp
qed

lemma length_dec_ge: "10 ^ w \<le> n \<Longrightarrow> w < length (dec n)"
proof (induction n arbitrary: w rule: dec.induct)
  case (1 n)
  show ?case
  proof (cases "n < 10")
    case True
    have "w = 0"
    proof (cases w)
      case (Suc k)
      have "(10::nat) \<le> 10 * 10 ^ k"
        by simp
      with "1.prems" True Suc show ?thesis
        by simp
    qed simp
    with True show ?thesis
      by (subst dec.simps) simp
  next
    case False
    show ?thesis
    proof (cases w)
      case 0
      with False show ?thesis
        by (subst dec.simps) simp
    next
      case (Suc v)
      with "1.prems" have "10 ^ v \<le> n div 10"
        by (simp add: less_eq_div_iff_mult_less_eq mult.commute)
      then have "v < length (dec (n div 10))"
        using "1.IH" False by simp
      with False Suc show ?thesis
        by (subst dec.simps) simp
    qed
  qed
qed

lemma strftime_ymd_padded: "1000 \<le> y \<Longrightarrow> strftime_ymd y m d = ymd y m d"
  using length_dec_ge [of 3 y] by (simp add: strftime_ymd_def ymd_def pad0_def)

text \<open>
  Claim C7, as stated, fails twice. The date is tested with
  \<open>if frontmatter.get('date')\<close>, so a date that is false in a condition, such as the empty
  string, gives no line at all. And a timestamp of a year below 1000 is not printed as
  \<open>YYYY-MM-DD\<close>: \<open>%Y\<close> does not pad the year, and the line for the year 999 is
  \<open>Data: 999-01-02\<close>.
\<close>

theorem date_line_counterexample:
  \<open>parse_frontmatter flat_lib ''---\<newline>date: ""\<newline>---\<newline>body''
     = Inr (YMap [(YStr ''date'', YStr [])], ''body'') \<and>
   convert_markdown_to_gemtext flat_lib ''---\<newline>date: ""\<newline>---\<newline>body'' = Inr ''body'' \<and>
   parse_frontmatter flat_lib ''---\<newline>date: 0999-01-02T10:30:00\<newline>---\<newline>body''
     = Inr (YMap [(YStr ''date'', YDateTime 999 1 2 \<lparr> hour = 10, minute = 30, second = 0,
                     microsecond = 0, utcoffset = None \<rparr>)], ''body'') \<and>
   convert_markdown_to_gemtext flat_lib ''---\<newline>date: 0999-01-02T10:30:00\<newline>---\<newline>body''
     = Inr ''Data: 999-01-02\<newline>\<newline>body''\<close>
  unfolding flat_lib_def by code_simp

text \<open>
  Claim C7, amended. When the metadata holds a date that is true in a condition, the lines
  \<open>Data: {date}\<close> and a blank line follow the title block and precede the summary block: a
  date prints as \<open>YYYY-MM-DD\<close>, four digits, two digits and two digits joined by \<open>-\<close>, a
  timestamp is formatted with \<open>%Y-%m-%d\<close>, which is that form from the year 1000 on, and a
  string is used as it is. When the date is false in a condition nothing is emitted for
  it: the title block is followed by the summary block.
\<close>

theorem date_line:
  assumes "parse_frontmatter L content = Inr (YMap fm, body)"
    and "map_of fm (YStr ''date'') = Some v"
  shows "(py_truthy v \<longrightarrow>
            gemtext_lines L content =
              Inr (title_block L fm
                   @ [YStr (''Data: '' @ (case v of
                                            YStr s \<Rightarrow> s
                                          | YDate y m d \<Rightarrow> ymd y m d
                                          | YDateTime y m d t \<Rightarrow> strftime_ymd y m d
                                          | _ \<Rightarrow> py_str L v)), YStr []]
                   @ summary_block fm @ map YStr (process_body False (py_lines body)))) \<and>
         (\<not> py_truthy v \<longrightarrow>
            gemtext_lines L content =
              Inr (title_block L fm @ summary_block fm
                   @ map YStr (process_body False (py_lines body)))) \<and>
         (yy < 10000 \<and> mm < 100 \<and> dd < 100 \<longrightarrow>
            (\<exists>a b c. ymd yy mm dd = a @ ''-'' @ b @ ''-'' @ c \<and> length a = 4 \<and> length b = 2 \<and>
                     length c = 2 \<and> list_all is_digit (a @ b @ c))) \<and>
         (1000 \<le> yy \<longrightarrow> strftime_ymd yy mm dd = ymd yy mm dd)"
proof -
  have lines: "gemtext_lines L content =
      Inr (title_block L fm @ date_block L fm @ summary_block fm
           @ map YStr (process_body False (py_lines body)))"
    using assms(1) by (simp add: gemtext_lines_def)
  have shown: "py_str L (strftime_date v) =
      (case v of YStr s \<Rightarrow> s | YDate y m d \<Rightarrow> ymd y m d | YDateTime y m d t \<Rightarrow> strftime_ymd y m d
       | _ \<Rightarrow> py_str L v)"
    by (cases v) simp_all
  have truthy: "date_block L fm = [YStr (''Data: '' @ py_str L (strftime_date v)), YStr []]"
    if "py_truthy v"
    using assms(2) that by (simp add: date_block_def)
  have falsy: "date_block L fm = []" if "\<not> py_truthy v"
    using assms(2) that by (simp add: date_block_def)
  have 1: "py_truthy v \<longrightarrow>
            gemtext_lines L content =
              Inr (title_block L fm
                   @ [YStr (''Data: '' @ (case v of
                                            YStr s \<Rightarrow> s
                                          | YDate y m d \<Rightarrow> ymd y m d
                                          | YDateTime y m d t \<Rightarrow> strftime_ymd y m d
                                          | _ \<Rightarrow> py_str L v)), YStr []]
                   @ summary_block fm @ map YStr (process_body False (py_lines body)))"
    using truthy by (simp add: lines shown)
  have 2: "\<not> py_truthy v \<longrightarrow>
            gemtext_lines L content =
              Inr (title_block L fm @ summary_block fm
                   @ map YStr (process_body False (py_lines body)))"
    using falsy by (simp add: lines)
  show ?thesis
    using 1 2 ymd_shape [of yy mm dd] strftime_ymd_padded [of yy mm dd] by blast
qed

theorem date_line_witness:
  \<open>gemtext_lines flat_lib ''---\<newline>date: 2024-01-02\<newline>---\<newline>body''
     = Inr [YStr ''Data: 2024-01-02'', YStr [], YStr ''body''] \<and>
   gemtext_lines flat_lib ''---\<newline>date: "2 Jan 2024"\<newline>---\<newline>body''
     = Inr [YStr ''Data: 2 Jan 2024'', YStr [], YStr ''body''] \<and>
   gemtext_lines flat_lib ''---\<newline>date: 2024-01-02T10:30:00\<newline>---\<newline>body''
     = Inr [YStr ''Data: 2024-01-02'', YStr [], YStr ''body''] \<and>
   gemtext_lines flat_lib ''---\<newline>date: ""\<newline>---\<newline>body'' = Inr [YStr ''body'']\<close>
proof -
  have b: "map YStr (process_body False (py_lines ''body'')) = [YStr ''body'']"
    by code_simp
  have d: "ymd 2024 1 2 = ''2024-01-02''" "strftime_ymd 2024 1 2 = ''2024-01-02''"
    by code_simp+
  have p1: "parse_frontmatter flat_lib ''---\<newline>date: 2024-01-02\<newline>---\<newline>body''
            = Inr (YMap [(YStr ''date'', YDate 2024 1 2)], ''body'')"
    unfolding flat_lib_def by code_simp
  have p2: \<open>parse_frontmatter flat_lib ''---\<newline>date: "2 Jan 2024"\<newline>---\<newline>body''
            = Inr (YMap [(YStr ''date'', YStr ''2 Jan 2024'')], ''body'')\<close>
    unfolding flat_lib_def by code_simp
  have p3: "parse_frontmatter flat_lib ''---\<newline>date: 2024-01-02T10:30:00\<newline>---\<newline>body''
            = Inr (YMap [(YStr ''date'', YDateTime 2024 1 2 \<lparr> hour = 10, minute = 30, second = 0,
                           microsecond = 0, utcoffset = None \<rparr>)], ''body'')"
    unfolding flat_lib_def by code_simp
  have p4: \<open>parse_frontmatter flat_lib ''---\<newline>date: ""\<newline>---\<newline>body''
            = Inr (YMap [(YStr ''date'', YStr [])], ''body'')\<close>
    unfolding flat_lib_def by code_simp
  have t: "title_block L [(YStr ''date'', v)] = []" "summary_block [(YStr ''date'', v)] = []" for L v
    by (simp_all add: title_block_def summary_block_def)
  have 1: "gemtext_lines flat_lib ''---\<newline>date: 2024-01-02\<newline>---\<newline>body''
           = Inr [YStr (''Data: '' @ ymd 2024 1 2), YStr [], YStr ''body'']"
    using conjunct1 [OF date_line [OF p1, of "YDate 2024 1 2"]] unfolding t b by simp
  have 2: \<open>gemtext_lines flat_lib ''---\<newline>date: "2 Jan 2024"\<newline>---\<newline>body''
           = Inr [YStr (''Data: '' @ ''2 Jan 2024''), YStr [], YStr ''body'']\<close>
    using conjunct1 [OF date_line [OF p2, of "YStr ''2 Jan 2024''"]] unfolding t b by simp
  have 3: "gemtext_lines flat_lib ''---\<newline>date: 2024-01-02T10:30:00\<newline>---\<newline>body''
           = Inr [YStr (''Data: '' @ strftime_ymd 2024 1 2), YStr [], YStr ''body'']"
    using conjunct1 [OF date_line [OF p3, of "YDateTime 2024 1 2 \<lparr> hour = 10, minute = 30,
                        second = 0, microsecond = 0, utcoffset = None \<rparr>"]] unfolding t b by simp
  have 4: \<open>gemtext_lines flat_lib ''---\<newline>date: ""\<newline>---\<newline>body'' = Inr [YStr ''body'']\<close>
    using conjunct1 [OF conjunct2 [OF date_line [OF p4, of "YStr []"]]] unfolding t b by simp
  show ?thesis
    unfolding 1 2 3 4 d by simp
qed

section \<open>The order of the index\<close>

lemma sort_posts_sorted: "sorted_wrt (\<lambda>p q. date q \<le> date p) (sort_posts posts)"
proof -
  have "sorted (map date (sort_key date (rev posts)))"
    by (rule sorted_sort_key)
  then have "sorted_wrt (\<lambda>p q. date p \<le> date q) (sort_key date (rev posts))"
    by (simp add: sorted_map)
  then show ?thesis
    by (simp add: sort_posts_def sorted_wrt_rev)
qed

lemma sort_posts_mset: "mset (sort_posts posts) = mset posts"
  by (simp add: sort_posts_def)

lemma ex_sort:
  "sort_posts [\<lparr>title = YStr ''A'', date = ''2024-03-01'', path = ''blog/a.gmi''\<rparr>,
               \<lparr>title = YStr ''B'', date = ''2024-01-15'', path = ''blog/b.gmi''\<rparr>,
               \<lparr>title = YStr ''C'', date = ''2024-02-20'', path = ''blog/c.gmi''\<rparr>]
   = [\<lparr>title = YStr ''A'', date = ''2024-03-01'', path = ''blog/a.gmi''\<rparr>,
      \<lparr>title = YStr ''C'', date = ''2024-02-20'', path = ''blog/c.gmi''\<rparr>,
      \<lparr>title = YStr ''B'', date = ''2024-01-15'', path = ''blog/b.gmi''\<rparr>]"
  by code_simp

lemma ex_collect:
  "collect_posts flat_lib
     [(''a'', ''---\<newline>title: A\<newline>date: 2024-03-01\<newline>---\<newline>x''),
      (''b'', ''---\<newline>title: B\<newline>date: 2024-01-15\<newline>---\<newline>x''),
      (''c'', ''---\<newline>title: C\<newline>date: 2024-02-20\<newline>---\<newline>x'')]
   = Inr [\<lparr>title = YStr ''A'', date = ''2024-03-01'', path = ''blog/a.gmi''\<rparr>,
               \<lparr>title = YStr ''B'', date = ''2024-01-15'', path = ''blog/b.gmi''\<rparr>,
               \<lparr>title = YStr ''C'', date = ''2024-02-20'', path = ''blog/c.gmi''\<rparr>]"
  by code_simp

text \<open>
  Claim C8. The posts are emitted in descending order of their date strings, compared
  character by character: in the sorted list each date is at least the next one, the
  sorted list holds the posts collected, and the index is the header followed by one line
  per post in that order. The three posts of the specification come out as
  \<open>2024-03-01\<close>, \<open>2024-02-20\<close>, \<open>2024-01-15\<close>.
\<close>

theorem index_order:
  "sorted_wrt (\<lambda>p q. date q \<le> date p) (sort_posts posts) \<and>
   mset (sort_posts posts) = mset posts \<and>
   (collect_posts L dirs = Inr posts \<longrightarrow>
      create_gemini_index L dirs
        = Inr (py_join [CHR 0x0A] (index_header @ map (post_line L) (sort_posts posts))))"
  by (simp add: sort_posts_sorted sort_posts_mset create_gemini_index_def)

theorem index_order_witness:
  "create_gemini_index flat_lib
     [(''a'', ''---\<newline>title: A\<newline>date: 2024-03-01\<newline>---\<newline>x''),
      (''b'', ''---\<newline>title: B\<newline>date: 2024-01-15\<newline>---\<newline>x''),
      (''c'', ''---\<newline>title: C\<newline>date: 2024-02-20\<newline>---\<newline>x'')]
   = Inr ''# Blog\<newline>\<newline>Witaj w wersji Gemini mojego bloga!\<newline>\<newline>## Posty\<newline>\<newline>=> blog/a.gmi [2024-03-01] A\<newline>=> blog/c.gmi [2024-02-20] C\<newline>=> blog/b.gmi [2024-01-15] B''"
proof -
  let ?posts = "[\<lparr>title = YStr ''A'', date = ''2024-03-01'', path = ''blog/a.gmi''\<rparr>,
               \<lparr>title = YStr ''B'', date = ''2024-01-15'', path = ''blog/b.gmi''\<rparr>,
               \<lparr>title = YStr ''C'', date = ''2024-02-20'', path = ''blog/c.gmi''\<rparr>]"
  have j: "py_join [CHR 0x0A] (index_header @ map (post_line flat_lib)
             [\<lparr>title = YStr ''A'', date = ''2024-03-01'', path = ''blog/a.gmi''\<rparr>,
              \<lparr>title = YStr ''C'', date = ''2024-02-20'', path = ''blog/c.gmi''\<rparr>,
              \<lparr>title = YStr ''B'', date = ''2024-01-15'', path = ''blog/b.gmi''\<rparr>])
           = ''# Blog\<newline>\<newline>Witaj w wersji Gemini mojego bloga!\<newline>\<newline>## Posty\<newline>\<newline>=> blog/a.gmi [2024-03-01] A\<newline>=> blog/c.gmi [2024-02-20] C\<newline>=> blog/b.gmi [2024-01-15] B''"
    by code_simp
  from index_order [of ?posts flat_lib] ex_collect
  have "create_gemini_index flat_lib
     [(''a'', ''---\<newline>title: A\<newline>date: 2024-03-01\<newline>---\<newline>x''),
      (''b'', ''---\<newline>title: B\<newline>date: 2024-01-15\<newline>---\<newline>x''),
      (''c'', ''---\<newline>title: C\<newline>date: 2024-02-20\<newline>---\<newline>x'')]
     = Inr (py_join [CHR 0x0A] (index_header @ map (post_line flat_lib) (sort_posts ?posts)))"
    by blast
  then show ?thesis
    by (simp only: ex_sort j)
qed

section \<open>Inline links\<close>

lemma dropWhile_hd: "dropWhile P xs = a # ys \<Longrightarrow> \<not> P a"
  by (metis hd_dropWhile list.distinct(1) list.sel(1))

lemma link_at_Some:
  assumes "link_at s = Some (l, u, r)"
  shows "is_link l u \<and> s = link_token l u @ r"
proof -
  from assms obtain s1 where s: "s = CHR ''['' # s1"
    by (cases s) (auto simp: link_at_def split: if_splits)
  from assms s obtain a s2 where d1: "dropWhile (\<lambda>x. x \<noteq> CHR '']'') s1 = a # CHR ''('' # s2"
    by (auto simp: link_at_def split: list.splits if_splits)
  from assms s d1 obtain e where d2: "dropWhile (\<lambda>x. x \<noteq> CHR '')'') s2 = e # r"
    and l: "l = takeWhile (\<lambda>x. x \<noteq> CHR '']'') s1" "l \<noteq> []"
    and u: "u = takeWhile (\<lambda>x. x \<noteq> CHR '')'') s2" "u \<noteq> []"
    by (auto simp: link_at_def split: list.splits if_splits)
  have a: "a = CHR '']''" using dropWhile_hd [OF d1] by simp
  have e: "e = CHR '')''" using dropWhile_hd [OF d2] by simp
  have "s1 = l @ a # CHR ''('' # s2"
    using takeWhile_dropWhile_id [of "\<lambda>x. x \<noteq> CHR '']''" s1] d1 l by simp
  moreover have "s2 = u @ e # r"
    using takeWhile_dropWhile_id [of "\<lambda>x. x \<noteq> CHR '')''" s2] d2 u by simp
  moreover have "CHR '']'' \<notin> set l" using l(1) by (auto dest: set_takeWhileD)
  moreover have "CHR '')'' \<notin> set u" using u(1) by (auto dest: set_takeWhileD)
  ultimately show ?thesis
    using s a e l(2) u(2) by (simp add: is_link_def link_token_def)
qed

lemma link_at_token:
  assumes "is_link l u"
  shows "link_at (link_token l u @ r) = Some (l, u, r)"
proof -
  have tl: "takeWhile (\<lambda>x. x \<noteq> CHR '']'') (l @ CHR '']'' # xs) = l" for xs
    using assms by (subst takeWhile_append2) (auto simp: is_link_def)
  have dl: "dropWhile (\<lambda>x. x \<noteq> CHR '']'') (l @ CHR '']'' # xs) = CHR '']'' # xs" for xs
    using assms by (subst dropWhile_append2) (auto simp: is_link_def)
  have tu: "takeWhile (\<lambda>x. x \<noteq> CHR '')'') (u @ CHR '')'' # xs) = u" for xs
    using assms by (subst takeWhile_append2) (auto simp: is_link_def)
  have du: "dropWhile (\<lambda>x. x \<noteq> CHR '')'') (u @ CHR '')'' # xs) = CHR '')'' # xs" for xs
    using assms by (subst dropWhile_append2) (auto simp: is_link_def)
  show ?thesis
    using assms by (simp add: link_at_def link_token_def tl dl tu du is_link_def)
qed

lemma link_at_iff: "link_at s = Some (l, u, r) \<longleftrightarrow> is_link l u \<and> s = link_token l u @ r"
  using link_at_Some link_at_token by blast

lemma link_at_None_iff:
  "link_at s = None \<longleftrightarrow> \<not> (\<exists>l u r. is_link l u \<and> s = link_token l u @ r)"
proof
  assume "link_at s = None"
  then show "\<not> (\<exists>l u r. is_link l u \<and> s = link_token l u @ r)"
    by (auto simp: link_at_token)
next
  assume *: "\<not> (\<exists>l u r. is_link l u \<and> s = link_token l u @ r)"
  show "link_at s = None"
  proof (cases "link_at s")
    case (Some a)
    obtain l u r where "a = (l, u, r)" by (cases a)
    with Some link_at_Some * show ?thesis by blast
  qed simp
qed

lemma rmatch_label:
  "rmatch (Many True (\<lambda>x. x \<noteq> CHR '']'') 1 None # lit CHR '']'' # ps) s =
     (if length (takeWhile (\<lambda>x. x \<noteq> CHR '']'') s) < 1 then None
      else (case rmatch (lit CHR '']'' # ps) (dropWhile (\<lambda>x. x \<noteq> CHR '']'') s) of
              None \<Rightarrow> None
            | Some (gs, r) \<Rightarrow> Some (takeWhile (\<lambda>x. x \<noteq> CHR '']'') s # gs, r)))"
  by (subst rmatch_Many_lit [where P = "\<lambda>x. x \<noteq> CHR '']''" and c = "CHR '']''"])
     (simp_all split: option.splits)

lemma rmatch_url:
  "rmatch (Many True (\<lambda>x. x \<noteq> CHR '')'') 1 None # lit CHR '')'' # ps) s =
     (if length (takeWhile (\<lambda>x. x \<noteq> CHR '')'') s) < 1 then None
      else (case rmatch (lit CHR '')'' # ps) (dropWhile (\<lambda>x. x \<noteq> CHR '')'') s) of
              None \<Rightarrow> None
            | Some (gs, r) \<Rightarrow> Some (takeWhile (\<lambda>x. x \<noteq> CHR '')'') s # gs, r)))"
  by (subst rmatch_Many_lit [where P = "\<lambda>x. x \<noteq> CHR '')''" and c = "CHR '')''"])
     (simp_all split: option.splits)

lemma take_drop_until:
  assumes "c \<notin> set l"
  shows "takeWhile (\<lambda>x. x \<noteq> c) (l @ c # xs) = l"
    and "dropWhile (\<lambda>x. x \<noteq> c) (l @ c # xs) = c # xs"
  using assms by (induction l) auto

lemma rmatch_link_token:
  assumes "is_link l u"
  shows "rmatch link_pattern (link_token l u @ r) = Some ([l, u], r)"
proof -
  have l: "CHR '']'' \<notin> set l" "l \<noteq> []" and u: "CHR '')'' \<notin> set u" "u \<noteq> []"
    using assms by (simp_all add: is_link_def)
  have "rmatch [lit CHR '')''] (CHR '')'' # r) = Some ([], r)"
    by (simp add: rmatch_lit_Cons)
  then have "rmatch [Many True (\<lambda>c. c \<noteq> CHR '')'') 1 None, lit CHR '')''] (u @ CHR '')'' # r)
             = Some ([u], r)"
    using u by (simp only: rmatch_url take_drop_until [OF u(1)]) simp
  then have "rmatch [lit CHR '']'', lit CHR ''('', Many True (\<lambda>c. c \<noteq> CHR '')'') 1 None, lit CHR '')'']
               (CHR '']'' # CHR ''('' # u @ CHR '')'' # r) = Some ([u], r)"
    by (simp add: rmatch_lit_Cons del: rmatch.simps)
  then have "rmatch [Many True (\<lambda>c. c \<noteq> CHR '']'') 1 None, lit CHR '']'', lit CHR ''('',
                     Many True (\<lambda>c. c \<noteq> CHR '')'') 1 None, lit CHR '')'']
               (l @ CHR '']'' # CHR ''('' # u @ CHR '')'' # r) = Some ([l, u], r)"
    using l by (simp only: rmatch_label take_drop_until [OF l(1)]) simp
  then show ?thesis
    by (simp add: link_pattern_def link_token_def rmatch_lit_Cons del: rmatch.simps)
qed

lemma rmatch_link_Some:
  assumes "rmatch link_pattern s = Some (gs, r)"
  shows "\<exists>l u. gs = [l, u] \<and> is_link l u \<and> s = link_token l u @ r"
proof -
  from assms obtain s1 where s: "s = CHR ''['' # s1"
    and m1: "rmatch (Many True (\<lambda>c. c \<noteq> CHR '']'') 1 None # lit CHR '']'' #
                     [lit CHR ''('', Many True (\<lambda>c. c \<noteq> CHR '')'') 1 None, lit CHR '')'']) s1
             = Some (gs, r)"
    by (cases s) (auto simp: link_pattern_def rmatch_lit_Nil rmatch_lit_Cons
        simp del: rmatch.simps split: if_splits)
  from rmatch_delim [OF _ m1] obtain l s' gs' where
    l: "s1 = l @ CHR '']'' # s'" "l \<noteq> []" "\<forall>x \<in> set l. x \<noteq> CHR '']''"
    and m2: "rmatch [lit CHR ''('', Many True (\<lambda>c. c \<noteq> CHR '')'') 1 None, lit CHR '')''] s'
             = Some (gs', r)"
    and gs: "gs = l # gs'"
    by auto
  from m2 obtain s2 where s': "s' = CHR ''('' # s2"
    and m3: "rmatch (Many True (\<lambda>c. c \<noteq> CHR '')'') 1 None # lit CHR '')'' # []) s2 = Some (gs', r)"
    by (cases s') (auto simp: rmatch_lit_Nil rmatch_lit_Cons simp del: rmatch.simps split: if_splits)
  from rmatch_delim [OF _ m3] obtain u s'' gs'' where
    u: "s2 = u @ CHR '')'' # s''" "u \<noteq> []" "\<forall>x \<in> set u. x \<noteq> CHR '')''"
    and m4: "rmatch [] s'' = Some (gs'', r)" and gs': "gs' = u # gs''"
    by auto
  from m4 have "s'' = r" "gs'' = []" by simp_all
  with s l s' u gs gs' show ?thesis
    by (auto simp: is_link_def link_token_def)
qed

lemma rmatch_link:
  "rmatch link_pattern s =
     (case link_at s of None \<Rightarrow> None | Some (l, u, r) \<Rightarrow> Some ([l, u], r))"
proof (cases "link_at s")
  case None
  show ?thesis
  proof (cases "rmatch link_pattern s")
    case n: None
    with None show ?thesis by simp
  next
    case (Some a)
    obtain gs r where "a = (gs, r)" by (cases a)
    with Some rmatch_link_Some obtain l u where "is_link l u" "s = link_token l u @ r"
      by blast
    then have "link_at s = Some (l, u, r)"
      by (simp add: link_at_token)
    with None show ?thesis by simp
  qed
next
  case (Some a)
  obtain l u r where a: "a = (l, u, r)" by (cases a)
  with Some link_at_Some have "is_link l u" "s = link_token l u @ r"
    by blast+
  then have "rmatch link_pattern s = Some ([l, u], r)"
    by (simp add: rmatch_link_token)
  with Some a show ?thesis by simp
qed

lemma split_plain:
  "plain_before t rest \<Longrightarrow>
   re_split_from link_pattern acc (t @ rest) = re_split_from link_pattern (rev t @ acc) rest"
proof (induction t arbitrary: acc)
  case Nil
  then show ?case by simp
next
  case (Cons c cs)
  then have "rmatch link_pattern (c # cs @ rest) = None"
    by (simp add: rmatch_link)
  then have "re_split_from link_pattern acc ((c # cs) @ rest)
             = re_split_from link_pattern (c # acc) (cs @ rest)"
    by (subst re_split_from.simps) simp
  also have "\<dots> = re_split_from link_pattern (rev cs @ c # acc) rest"
    using Cons by simp
  finally show ?case by simp
qed

lemma split_token:
  assumes "is_link l u"
  shows "re_split_from link_pattern acc (link_token l u @ rest)
         = rev acc # l # u # re_split_from link_pattern [] rest"
proof -
  have "rmatch link_pattern (link_token l u @ rest) = Some ([l, u], rest)"
    using assms by (rule rmatch_link_token)
  moreover have "length rest < length (link_token l u @ rest)"
    by (simp add: link_token_def)
  ultimately show ?thesis
    by (subst re_split_from.simps) simp
qed

lemma split_end: "re_split_from link_pattern acc [] = [rev acc]"
  by (subst re_split_from.simps) (simp add: rmatch_link link_at_def)

lemma split_scanned:
  "scanned segs tail \<Longrightarrow>
   re_split_from link_pattern acc (assemble segs tail) = parts_of (rev acc) segs tail"
proof (induction segs arbitrary: acc)
  case Nil
  then have "re_split_from link_pattern acc (tail @ []) = re_split_from link_pattern (rev tail @ acc) []"
    by (intro split_plain) simp
  then show ?case
    by (simp add: split_end)
next
  case (Cons seg segs)
  obtain t l u where seg: "seg = (t, l, u)" by (cases seg)
  from Cons.prems seg have link: "is_link l u"
    and plain: "plain_before t (link_token l u @ assemble segs tail)"
    and rest: "scanned segs tail"
    by simp_all
  have "re_split_from link_pattern acc (t @ link_token l u @ assemble segs tail)
        = re_split_from link_pattern (rev t @ acc) (link_token l u @ assemble segs tail)"
    using plain by (rule split_plain)
  also have "\<dots> = rev (rev t @ acc) # l # u # re_split_from link_pattern [] (assemble segs tail)"
    using link by (rule split_token)
  also have "re_split_from link_pattern [] (assemble segs tail) = parts_of [] segs tail"
    using Cons.IH [OF rest, of "[]"] by simp
  finally show ?case
    using seg by simp
qed

lemma links_loop_parts:
  "links_loop (front @ parts_of pre segs tail) (length front) rl cl
   = (rl @ (case segs of [] \<Rightarrow> [pre @ tail]
            | (t, l, u) # segs' \<Rightarrow> (pre @ t) # map fst segs' @ [tail]),
      cl @ map link_line segs)"
proof (induction segs arbitrary: front pre rl cl)
  case Nil
  have "links_loop (front @ [pre @ tail]) (Suc (length front)) (rl @ [pre @ tail]) cl
        = (rl @ [pre @ tail], cl)"
    by (subst links_loop.simps) simp
  then show ?case
    by (subst links_loop.simps) simp
next
  case (Cons seg segs)
  obtain t l u where seg: "seg = (t, l, u)" by (cases seg)
  let ?front = "front @ [pre @ t, l, u]"
  have ne: "parts_of [] segs tail \<noteq> []"
    by (cases segs) auto
  have step: "links_loop (front @ parts_of pre (seg # segs) tail) (length front) rl cl
        = links_loop (?front @ parts_of [] segs tail) (length ?front) (rl @ [pre @ t])
            (cl @ [''=> '' @ u @ '' '' @ l])"
    using seg ne
    by (subst links_loop.simps) (simp add: nth_append numeral_3_eq_3)
  have "links_loop (?front @ parts_of [] segs tail) (length ?front) (rl @ [pre @ t])
            (cl @ [''=> '' @ u @ '' '' @ l])
        = ((rl @ [pre @ t]) @ (case segs of [] \<Rightarrow> [[] @ tail]
            | (t', l', u') # segs' \<Rightarrow> ([] @ t') # map fst segs' @ [tail]),
           (cl @ [''=> '' @ u @ '' '' @ l]) @ map link_line segs)"
    by (rule Cons.IH)
  with step seg show ?case
    by (simp add: link_line_def split: list.splits)
qed

lemma every_text_scanned: "\<exists>segs tail. line = assemble segs tail \<and> scanned segs tail"
proof (induction line rule: length_induct)
  case (1 line)
  show ?case
  proof (cases line)
    case Nil
    then have "line = assemble [] [] \<and> scanned [] []" by simp
    then show ?thesis by blast
  next
    case (Cons c cs)
    show ?thesis
    proof (cases "link_at line")
      case (Some a)
      obtain l u r where a: "a = (l, u, r)" by (cases a)
      with Some link_at_Some have link: "is_link l u" and line: "line = link_token l u @ r"
        by blast+
      then have "length r < length line"
        by (simp add: link_token_def)
      with "1.IH" obtain segs tail where "r = assemble segs tail" "scanned segs tail"
        by blast
      with link line have "line = assemble (([], l, u) # segs) tail \<and> scanned (([], l, u) # segs) tail"
        by simp
      then show ?thesis by blast
    next
      case None
      from "1.IH" Cons obtain segs tail where cs: "cs = assemble segs tail" and sc: "scanned segs tail"
        by auto
      show ?thesis
      proof (cases segs)
        case Nil
        with cs sc None Cons have "line = assemble [] (c # tail) \<and> scanned [] (c # tail)"
          by simp
        then show ?thesis by blast
      next
        case (Cons seg segs')
        obtain t l u where "seg = (t, l, u)" by (cases seg)
        with cs sc None \<open>line = c # cs\<close> Cons
        have "line = assemble ((c # t, l, u) # segs') tail \<and> scanned ((c # t, l, u) # segs') tail"
          by simp
        then show ?thesis by blast
      qed
    qed
  qed
qed

text \<open>
  Claim C5. For a line cut at its link tokens, \<open>convert_links\<close> returns the plain texts
  joined with nothing between them, and then, when there is a token, a newline and the
  lines \<open>=> url label\<close> of the tokens in the order of the line, joined by newlines. A line
  without a token has no segment and is returned as it is. Every line can be cut this way
  (\<open>every_text_scanned\<close>), and the matcher of the code finds a token exactly where
  \<open>link_at\<close> reads one (\<open>rmatch_link\<close>). The line of the specification,
  \<open>See [here](gemini://x/y) for more.\<close>, gives the text shown there.
\<close>

theorem convert_links_relocates:
  assumes "scanned segs tail"
  shows "convert_links (assemble segs tail)
         = concat (map fst segs) @ tail
           @ (if segs = [] then []
              else [CHR 0x0A] @ py_join [CHR 0x0A] (map link_line segs))"
proof -
  have parts: "re_split link_pattern (assemble segs tail) = parts_of [] segs tail"
    using split_scanned [OF assms, of "[]"] by (simp add: re_split_def)
  have "links_loop ([] @ parts_of [] segs tail) (length ([] :: string list)) [] []
        = ([] @ (case segs of [] \<Rightarrow> [[] @ tail]
                 | (t, l, u) # segs' \<Rightarrow> ([] @ t) # map fst segs' @ [tail]),
           [] @ map link_line segs)"
    by (rule links_loop_parts)
  then have loop: "links_loop (parts_of [] segs tail) 0 [] []
                   = (map fst segs @ [tail], map link_line segs)"
    by (simp split: list.splits)
  show ?thesis
    by (simp add: convert_links_def parts loop)
qed

theorem convert_links_relocates_witness:
  "convert_links ''See [here](gemini://x/y) for more.'' = ''See  for more.\<newline>=> gemini://x/y here'' \<and>
   convert_links ''[a](b)[c](d) x [e](f)'' = '' x \<newline>=> b a\<newline>=> d c\<newline>=> f e'' \<and>
   convert_links ''no [link] (here)'' = ''no [link] (here)''"
proof -
  have s1: "scanned [(''See '', ''here'', ''gemini://x/y'')] '' for more.''"
    by code_simp
  have a1: "assemble [(''See '', ''here'', ''gemini://x/y'')] '' for more.''
            = ''See [here](gemini://x/y) for more.''"
    by code_simp
  have r1: "concat (map fst [(''See '', ''here'', ''gemini://x/y'')]) @ '' for more.''
           @ (if [(''See '', ''here'', ''gemini://x/y'')] = [] then []
              else [CHR 0x0A] @ py_join [CHR 0x0A] (map link_line [(''See '', ''here'', ''gemini://x/y'')]))
           = ''See  for more.\<newline>=> gemini://x/y here''"
    by code_simp
  have s2: "scanned [([], ''a'', ''b''), ([], ''c'', ''d''), ('' x '', ''e'', ''f'')] []"
    by code_simp
  have a2: "assemble [([], ''a'', ''b''), ([], ''c'', ''d''), ('' x '', ''e'', ''f'')] []
            = ''[a](b)[c](d) x [e](f)''"
    by code_simp
  have r2: "concat (map fst [([], ''a'', ''b''), ([], ''c'', ''d''), ('' x '', ''e'', ''f'')]) @ []
           @ (if [([], ''a'', ''b''), ([], ''c'', ''d''), ('' x '', ''e'', ''f'')] = [] then []
              else [CHR 0x0A] @ py_join [CHR 0x0A]
                     (map link_line [([], ''a'', ''b''), ([], ''c'', ''d''), ('' x '', ''e'', ''f'')]))
           = '' x \<newline>=> b a\<newline>=> d c\<newline>=> f e''"
    by code_simp
  have s3: "scanned [] ''no [link] (here)''"
    by code_simp
  have r3: "concat (map fst ([] :: (string \<times> string \<times> string) list)) @ ''no [link] (here)''
           @ (if ([] :: (string \<times> string \<times> string) list) = [] then []
              else [CHR 0x0A] @ py_join [CHR 0x0A] (map link_line []))
           = ''no [link] (here)''"
    by simp
  note t1 = convert_links_relocates [OF s1, unfolded a1 r1]
  note t2 = convert_links_relocates [OF s2, unfolded a2 r2]
  note t3 = convert_links_relocates [OF s3, unfolded assemble.simps r3]
  show ?thesis
    by (rule conjI [OF t1 conjI [OF t2 t3]])
qed

end
